theory Spec2Isabelle
  imports Complex_Main "HOL-Library.Word" "HOL-Library.Product_Lexorder"
begin

section \<open>Machine arithmetic of the device code\<close>

text \<open>
  The embedded code is \<^verbatim>\<open>intern/cycles/device/device_opencl.cpp\<close>.  Its unsigned
  types wrap around, and the statements about the memory budget depend on that, so they are
  words: \<^verbatim>\<open>size_t\<close> is a 64-bit word and \<^verbatim>\<open>unsigned int\<close> a 32-bit word.
  Its signed \<^verbatim>\<open>int\<close> has 32 bits.  Signed overflow is undefined behaviour in C++;
  the compiled code computes the two's complement value, which \<open>int32\<close> gives: it is
  applied to the results of the \<^verbatim>\<open>int\<close> operations of the feasibility check
  (\<^verbatim>\<open>get_max_render_feasible_tile_size\<close> and \<^verbatim>\<open>need_to_split_tile\<close>), where
  the feasible counts that the budget yields take them out of range.  The other
  \<^verbatim>\<open>int\<close> computations are modelled by \<^typ>\<open>int\<close> without a bound: a statement
  about them is a statement about the runs in which the values stay within the range
  of \<^verbatim>\<open>int\<close>.  Division of \<^verbatim>\<open>int\<close> truncates towards zero.
\<close>

type_synonym size_t = "64 word"
type_synonym uint = "32 word"

definition tdiv :: "int \<Rightarrow> int \<Rightarrow> int" where
  "tdiv a b = sgn a * sgn b * (\<bar>a\<bar> div \<bar>b\<bar>)"

definition int32 :: "int \<Rightarrow> int" where
  "int32 v = (v + 2147483648) mod 4294967296 - 2147483648"

definition SPLIT_KERNEL_LOCAL_SIZE_X :: int where
  "SPLIT_KERNEL_LOCAL_SIZE_X = 64"

definition SPLIT_KERNEL_LOCAL_SIZE_Y :: int where
  "SPLIT_KERNEL_LOCAL_SIZE_Y = 1"

definition PATH_ITER_INC_FACTOR :: int where
  "PATH_ITER_INC_FACTOR = 8"

definition DATA_ALLOCATION_MEM_FACTOR :: int where
  "DATA_ALLOCATION_MEM_FACTOR = 5000000"

text \<open>
  Modelled from the spec: the library function \<^verbatim>\<open>sqrt\<close> on \<^verbatim>\<open>double\<close>, followed by
  the cast to \<^verbatim>\<open>int\<close>, is taken to be the integer square root (the greatest \<open>m\<close>
  with \<open>m * m \<le> n\<close>), which is what the cast of the correctly rounded root gives for
  every count below \<open>2 ^ 52\<close>.  A root of \<open>2 ^ 31\<close> or more is outside the range of
  \<^verbatim>\<open>int\<close>; the cast is then undefined, and the conversion instruction of the x86
  processors gives the least \<^verbatim>\<open>int\<close>.
\<close>

fun isqrt :: "nat \<Rightarrow> nat" where
  "isqrt n =
     (if n < 4 then (if n = 0 then 0 else 1)
      else (let r = 2 * isqrt (n div 4)
            in if (r + 1) * (r + 1) \<le> n then r + 1 else r))"

declare isqrt.simps [simp del]

definition int_of_double :: "nat \<Rightarrow> int" where
  "int_of_double r = (if r < 2147483648 then int r else - 2147483648)"

section \<open>The feasible tile size\<close>

text \<open>
  \<^verbatim>\<open>int2 get_max_render_feasible_tile_size(size_t feasible_global_work_size)\<close>.
  An \<^verbatim>\<open>int2\<close> is a pair: its \<^verbatim>\<open>x\<close> is the first component, its \<^verbatim>\<open>y\<close> the second.
  Every sum, difference and product is an \<^verbatim>\<open>int\<close>.  In the comparison of the
  \<^verbatim>\<open>int\<close> product with the \<^verbatim>\<open>size_t\<close> count the product is converted to
  \<^verbatim>\<open>size_t\<close>.
\<close>

type_synonym int2 = "int \<times> int"

definition get_max_render_feasible_tile_size :: "size_t \<Rightarrow> int2" where
  "get_max_render_feasible_tile_size feasible_global_work_size =
     (let square_root_val = int_of_double (isqrt (unat feasible_global_work_size));
          max_x = square_root_val;
          max_y = square_root_val;
          ceil_x = int32 (int32 (tdiv (int32 (max_x - 1)) SPLIT_KERNEL_LOCAL_SIZE_X + 1)
                            * SPLIT_KERNEL_LOCAL_SIZE_X);
          ceil_y = int32 (int32 (tdiv (int32 (max_y - 1)) SPLIT_KERNEL_LOCAL_SIZE_Y + 1)
                            * SPLIT_KERNEL_LOCAL_SIZE_Y)
      in if (of_int (int32 (ceil_x * ceil_y)) :: size_t) \<le> feasible_global_work_size
         then (ceil_x, ceil_y)
         else (int32 (tdiv max_x SPLIT_KERNEL_LOCAL_SIZE_X * SPLIT_KERNEL_LOCAL_SIZE_X),
               int32 (tdiv max_y SPLIT_KERNEL_LOCAL_SIZE_Y * SPLIT_KERNEL_LOCAL_SIZE_Y)))"

text \<open>
  \<^verbatim>\<open>bool need_to_split_tile(unsigned int d_w, unsigned int d_h, int2 max)\<close>: the
  rounding is done in \<^verbatim>\<open>unsigned int\<close>, the estimate is kept in \<^verbatim>\<open>size_t\<close>, and
  the product of the feasible size is an \<^verbatim>\<open>int\<close> that is converted to
  \<^verbatim>\<open>size_t\<close> for the comparison.
\<close>

definition need_to_split_tile :: "uint \<Rightarrow> uint \<Rightarrow> int2 \<Rightarrow> bool" where
  "need_to_split_tile d_w d_h max_render_feasible_tile_size =
     (let global_size_estimate_0 =
            (ucast (((d_w - 1) div of_int SPLIT_KERNEL_LOCAL_SIZE_X + 1)
                      * of_int SPLIT_KERNEL_LOCAL_SIZE_X) :: size_t);
          global_size_estimate_1 =
            (ucast (((d_h - 1) div of_int SPLIT_KERNEL_LOCAL_SIZE_Y + 1)
                      * of_int SPLIT_KERNEL_LOCAL_SIZE_Y) :: size_t)
      in if global_size_estimate_0 * global_size_estimate_1
              > of_int (int32 (fst max_render_feasible_tile_size
                                 * snd max_render_feasible_tile_size))
         then True else False)"

text \<open>
  The \<^verbatim>\<open>while\<close> loop of \<^verbatim>\<open>get_split_tile_size\<close>.  Nothing in the source bounds
  its iterations, so it is a partial function: \<open>None\<close> is the loop that never leaves.
\<close>

partial_function (option) halve_longer_dimension :: "int \<Rightarrow> int \<Rightarrow> int \<Rightarrow> int2 option" where
  "halve_longer_dimension d_w d_h num_global_threads =
     (if d_w * d_h > num_global_threads then
        (if d_w \<ge> d_h then
           halve_longer_dimension
             ((tdiv (tdiv d_w 2 - 1) SPLIT_KERNEL_LOCAL_SIZE_X + 1) * SPLIT_KERNEL_LOCAL_SIZE_X)
             d_h num_global_threads
         else
           halve_longer_dimension d_w
             ((tdiv (tdiv d_h 2 - 1) SPLIT_KERNEL_LOCAL_SIZE_Y + 1) * SPLIT_KERNEL_LOCAL_SIZE_Y)
             num_global_threads)
      else Some (d_w, d_h))"

declare halve_longer_dimension.simps [code]

section \<open>Render tiles and their splitting\<close>

text \<open>
  \<^verbatim>\<open>RenderTile\<close> is declared outside this file; the record has the fields this file
  reads and writes.  The one-letter fields \<^verbatim>\<open>x\<close>, \<^verbatim>\<open>y\<close>, \<^verbatim>\<open>w\<close>, \<^verbatim>\<open>h\<close> carry
  the prefix \<open>tile_\<close>.  Buffer handles are numbers.  The four offset fields keep the
  \<^verbatim>\<open>size_t\<close> value that \<^verbatim>\<open>split_tiles\<close> computes for them.
\<close>

record RenderTile =
  tile_x :: int
  tile_y :: int
  tile_w :: int
  tile_h :: int
  start_sample :: int
  num_samples :: int
  sample :: int
  resolution :: int
  offset :: int
  stride :: int
  buffer :: nat
  rng_state :: nat
  buffers :: nat
  rng_state_offset_x :: size_t
  rng_state_offset_y :: size_t
  buffer_offset_x :: size_t
  buffer_offset_y :: size_t
  buffer_rng_state_stride :: int
  tile_size :: int2

text \<open>\<^verbatim>\<open>int2 get_split_tile_size(RenderTile rtile, int2 max_render_feasible_tile_size)\<close>\<close>

definition get_split_tile_size :: "RenderTile \<Rightarrow> int2 \<Rightarrow> int2 option" where
  "get_split_tile_size rtile max_render_feasible_tile_size =
     (let num_global_threads =
            fst max_render_feasible_tile_size * snd max_render_feasible_tile_size;
          d_w = tile_w rtile;
          d_h = tile_h rtile;
          d_w = (tdiv (d_w - 1) SPLIT_KERNEL_LOCAL_SIZE_X + 1) * SPLIT_KERNEL_LOCAL_SIZE_X;
          d_h = (tdiv (d_h - 1) SPLIT_KERNEL_LOCAL_SIZE_Y + 1) * SPLIT_KERNEL_LOCAL_SIZE_Y
      in halve_longer_dimension d_w d_h num_global_threads)"

text \<open>A tile of 64 by 64 pixels at the origin of a buffer of its own size.\<close>

definition tile_64x64 :: RenderTile where
  "tile_64x64 =
     \<lparr>tile_x = 0, tile_y = 0, tile_w = 64, tile_h = 64, start_sample = 0, num_samples = 1,
      sample = 0, resolution = 1, offset = 0, stride = 64, buffer = 1, rng_state = 2,
      buffers = 3, rng_state_offset_x = 0, rng_state_offset_y = 0, buffer_offset_x = 0,
      buffer_offset_y = 0, buffer_rng_state_stride = 0, tile_size = (64, 64)\<rparr>"

text \<open>
  What the code does where C++ gives it no value to return: an integer division by
  zero, an allocation of a negative number of elements, a failed \<^verbatim>\<open>assert\<close>, and an
  access outside an array.
\<close>

datatype error = DivisionByZero | BadAlloc | AssertionFailed | OutOfBounds

text \<open>
  Modelled from the spec: the constructor \<^verbatim>\<open>RenderTile()\<close>, which \<^verbatim>\<open>resize\<close> runs for
  each new element, is outside this file.  It is taken to clear every field;
  \<^verbatim>\<open>split_tiles\<close> assigns every field of every element afterwards.
\<close>

definition RenderTile_new :: RenderTile where
  "RenderTile_new =
     \<lparr>tile_x = 0, tile_y = 0, tile_w = 0, tile_h = 0, start_sample = 0, num_samples = 0,
      sample = 0, resolution = 0, offset = 0, stride = 0, buffer = 0, rng_state = 0,
      buffers = 0, rng_state_offset_x = 0, rng_state_offset_y = 0, buffer_offset_x = 0,
      buffer_offset_y = 0, buffer_rng_state_stride = 0, tile_size = (0, 0)\<rparr>"

text \<open>
  The body of the inner loop of \<^verbatim>\<open>split_tiles\<close>: the assignments to the fields of
  \<^verbatim>\<open>to_path_trace_rtile[rtile_index]\<close>, in the order of the source.
\<close>

definition fill_tile ::
  "RenderTile \<Rightarrow> int2 \<Rightarrow> int \<Rightarrow> int \<Rightarrow> int \<Rightarrow> int \<Rightarrow> size_t \<Rightarrow> size_t \<Rightarrow> int \<Rightarrow> int
     \<Rightarrow> RenderTile \<Rightarrow> RenderTile" where
  "fill_tile rtile split_tile_size d_w d_h num_tiles_x num_tiles_y offset_x offset_y
       tile_iter_x tile_iter_y t =
     (let t = t\<lparr>rng_state_offset_x := offset_x + of_int (tile_iter_x * fst split_tile_size)\<rparr>;
          t = t\<lparr>rng_state_offset_y := offset_y + of_int (tile_iter_y * snd split_tile_size)\<rparr>;
          t = t\<lparr>buffer_offset_x := offset_x + of_int (tile_iter_x * fst split_tile_size)\<rparr>;
          t = t\<lparr>buffer_offset_y := offset_y + of_int (tile_iter_y * snd split_tile_size)\<rparr>;
          t = t\<lparr>start_sample := start_sample rtile\<rparr>;
          t = t\<lparr>num_samples := num_samples rtile\<rparr>;
          t = t\<lparr>sample := sample rtile\<rparr>;
          t = t\<lparr>resolution := resolution rtile\<rparr>;
          t = t\<lparr>offset := offset rtile\<rparr>;
          t = t\<lparr>tile_size := tile_size rtile\<rparr>;
          t = t\<lparr>buffers := buffers rtile\<rparr>;
          t = t\<lparr>buffer := buffer rtile\<rparr>;
          t = t\<lparr>rng_state := rng_state rtile\<rparr>;
          t = t\<lparr>tile_x := tile_x rtile + tile_iter_x * fst split_tile_size\<rparr>;
          t = t\<lparr>tile_y := tile_y rtile + tile_iter_y * snd split_tile_size\<rparr>;
          t = t\<lparr>buffer_rng_state_stride := stride rtile\<rparr>;
          t = t\<lparr>tile_w := (if tile_iter_x = num_tiles_x - 1
                            then d_w - tile_iter_x * fst split_tile_size
                            else fst split_tile_size)\<rparr>;
          t = t\<lparr>tile_h := (if tile_iter_y = num_tiles_y - 1
                            then d_h - tile_iter_y * snd split_tile_size
                            else snd split_tile_size)\<rparr>;
          t = t\<lparr>stride := tile_w t\<rparr>
      in t)"

text \<open>
  The two nested \<^verbatim>\<open>for\<close> loops.  \<^verbatim>\<open>tile_iter_x\<close> runs from 0 while it is below
  \<^verbatim>\<open>num_tiles_x\<close>, and \<^verbatim>\<open>tile_iter_y\<close> likewise; the element at
  \<^verbatim>\<open>rtile_index = tile_iter_y * num_tiles_x + tile_iter_x\<close> is updated in place.  The
  index is always inside the vector (lemma \<open>rtile_index_in_range\<close>).
\<close>

definition split_tiles_row ::
  "RenderTile \<Rightarrow> int2 \<Rightarrow> int \<Rightarrow> int \<Rightarrow> int \<Rightarrow> int \<Rightarrow> size_t \<Rightarrow> size_t \<Rightarrow> int
     \<Rightarrow> RenderTile list \<Rightarrow> RenderTile list" where
  "split_tiles_row rtile split_tile_size d_w d_h num_tiles_x num_tiles_y offset_x offset_y
       tile_iter_y to_path_trace_rtile =
     foldl (\<lambda>v tile_iter_x.
              (let rtile_index = tile_iter_y * num_tiles_x + tile_iter_x
               in v[nat rtile_index :=
                      fill_tile rtile split_tile_size d_w d_h num_tiles_x num_tiles_y
                        offset_x offset_y tile_iter_x tile_iter_y (v ! nat rtile_index)]))
       to_path_trace_rtile (map int [0..<nat num_tiles_x])"

definition split_tiles :: "RenderTile \<Rightarrow> int2 \<Rightarrow> error + RenderTile list" where
  "split_tiles rtile split_tile_size =
     (if fst split_tile_size = 0 \<or> snd split_tile_size = 0 then Inl DivisionByZero
      else
        (let d_w = tile_w rtile;
             d_h = tile_h rtile;
             num_tiles_x = tdiv (d_w - 1) (fst split_tile_size) + 1;
             num_tiles_y = tdiv (d_h - 1) (snd split_tile_size) + 1;
             offset_index =
               (of_int (offset rtile + (tile_x rtile + tile_y rtile * stride rtile)) :: size_t)
         in if stride rtile = 0 then Inl DivisionByZero
            else
              (let offset_x = offset_index mod of_int (stride rtile);
                   offset_y = offset_index div of_int (stride rtile)
               in if num_tiles_x * num_tiles_y < 0 then Inl BadAlloc
                  else
                    Inr (foldl (\<lambda>v tile_iter_y.
                                  split_tiles_row rtile split_tile_size d_w d_h num_tiles_x
                                    num_tiles_y offset_x offset_y tile_iter_y v)
                           (replicate (nat (num_tiles_x * num_tiles_y)) RenderTile_new)
                           (map int [0..<nat num_tiles_y])))))"

text \<open>The pixels of the image that a tile covers.\<close>

definition pixels :: "RenderTile \<Rightarrow> (int \<times> int) set" where
  "pixels t =
     {(px, py). tile_x t \<le> px \<and> px < tile_x t + tile_w t \<and>
                tile_y t \<le> py \<and> py < tile_y t + tile_h t}"

text \<open>The number of sub-tiles along one axis, in the words of the specification.\<close>

definition ceil_ratio :: "int \<Rightarrow> int \<Rightarrow> int" where
  "ceil_ratio a b = \<lceil>real_of_int a / real_of_int b\<rceil>"

text \<open>
  The example of the specification: a tile of 130 by 130 pixels at position (10, 20) of
  a buffer 200 pixels wide.
\<close>

definition tile_130x130 :: RenderTile where
  "tile_130x130 =
     \<lparr>tile_x = 10, tile_y = 20, tile_w = 130, tile_h = 130, start_sample = 0,
      num_samples = 4, sample = 0, resolution = 1, offset = 0, stride = 200, buffer = 1,
      rng_state = 2, buffers = 3, rng_state_offset_x = 0, rng_state_offset_y = 0,
      buffer_offset_x = 0, buffer_offset_y = 0, buffer_rng_state_stride = 0,
      tile_size = (130, 130)\<rparr>"

section \<open>The memory budget\<close>

text \<open>
  The sizes that the compiler takes from declarations outside this file are parameters:
  the sizes of the kernel types, the constants \<^verbatim>\<open>MAX_CLOSURE\<close>, \<^verbatim>\<open>NUM_QUEUES\<close> and
  \<^verbatim>\<open>RAY_INACTIVE\<close>,
  the size of the local \<^verbatim>\<open>KernelGlobals\<close> structure and the sum that
  \<^verbatim>\<open>get_shaderdata_soa_size\<close> accumulates (both are generated from included headers),
  and the texture names of \<^verbatim>\<open>kernel_textures.h\<close>.
\<close>

record kernel_types =
  sizeof_RNG :: size_t
  sizeof_PathRadiance :: size_t
  sizeof_Ray :: size_t
  sizeof_PathState :: size_t
  sizeof_Intersection :: size_t
  sizeof_BsdfEval :: size_t
  sizeof_ShaderClosure :: size_t
  sizeof_ShaderData :: size_t
  sizeof_KernelGlobals :: size_t
  shader_soa_size :: size_t
  MAX_CLOSURE :: int
  NUM_QUEUES :: int
  RAY_INACTIVE :: int
  kernel_textures :: "string list"

text \<open>
  The members of \<^verbatim>\<open>OpenCLDeviceSplitKernel\<close> that the budget and the scheduler use.
  A \<^verbatim>\<open>cl_mem\<close> handle is a number; \<open>cl_mem_size\<close> is the answer of the OpenCL
  runtime to \<^verbatim>\<open>clGetMemObjectInfo(ptr, CL_MEM_SIZE, ...)\<close>, and \<open>buffers_params\<close> gives the
  \<^verbatim>\<open>params.width\<close> and \<^verbatim>\<open>params.height\<close> of the \<^verbatim>\<open>RenderBuffers\<close> a tile points to.
\<close>

record OpenCLDeviceSplitKernel =
  throughput_size :: size_t
  L_transparent_size :: size_t
  rayState_size :: size_t
  hostRayState_size :: size_t
  work_element_size :: size_t
  ISLamp_size :: size_t
  AOAlpha_size :: size_t
  AOBSDF_size :: size_t
  per_thread_output_buffer_size :: size_t
  total_allocatable_memory :: size_t
  hostRayStateArray :: "8 word list"
  PathIteration_times :: uint
  background :: bool
  current_clos_max :: int
  first_tile :: bool
  mem_map :: "string \<rightharpoonup> nat"
  cl_mem_size :: "nat \<Rightarrow> size_t"
  buffers_params :: "nat \<Rightarrow> int2"

definition get_tex_size :: "OpenCLDeviceSplitKernel \<Rightarrow> string \<Rightarrow> size_t" where
  "get_tex_size dev tex_name =
     (case mem_map dev tex_name of
        Some ptr \<Rightarrow> cl_mem_size dev ptr
      | None \<Rightarrow> 0)"

definition get_shader_closure_size :: "kernel_types \<Rightarrow> int \<Rightarrow> size_t" where
  "get_shader_closure_size K max_closure = sizeof_ShaderClosure K * of_int max_closure"

definition get_shader_data_size :: "kernel_types \<Rightarrow> size_t \<Rightarrow> size_t" where
  "get_shader_data_size K shader_closure_size =
     (let shader_data_size = sizeof_ShaderData K - sizeof_ShaderClosure K * of_int (MAX_CLOSURE K)
      in shader_data_size + shader_closure_size)"

definition get_KernelGlobals_size :: "kernel_types \<Rightarrow> size_t" where
  "get_KernelGlobals_size K = sizeof_KernelGlobals K"

definition get_shaderdata_soa_size :: "kernel_types \<Rightarrow> size_t" where
  "get_shaderdata_soa_size K = shader_soa_size K"

definition get_invariable_mem_allocated :: "kernel_types \<Rightarrow> size_t" where
  "get_invariable_mem_allocated K =
     (let total_invariable_mem_allocated = 0;
          KernelGlobals_size = get_KernelGlobals_size K;
          ShaderData_SOA_size = get_shaderdata_soa_size K;
          total_invariable_mem_allocated = total_invariable_mem_allocated + KernelGlobals_size;
          total_invariable_mem_allocated = total_invariable_mem_allocated + of_int (NUM_QUEUES K) * 4;
          total_invariable_mem_allocated = total_invariable_mem_allocated + 1;
          total_invariable_mem_allocated = total_invariable_mem_allocated + ShaderData_SOA_size;
          total_invariable_mem_allocated = total_invariable_mem_allocated + ShaderData_SOA_size
      in total_invariable_mem_allocated)"

text \<open>
  \<^verbatim>\<open>get_tile_specific_mem_allocated\<close>, with \<^verbatim>\<open>__WORK_STEALING__\<close> defined as it is at
  the head of the file.  The tile size is read into \<^verbatim>\<open>unsigned int\<close>; the rounding and
  the product \<^verbatim>\<open>user_set_tile_w * user_set_tile_h\<close> are computed at that width before
  they are widened to \<^verbatim>\<open>size_t\<close>.
\<close>

definition get_tile_specific_mem_allocated ::
  "kernel_types \<Rightarrow> OpenCLDeviceSplitKernel \<Rightarrow> RenderTile \<Rightarrow> size_t" where
  "get_tile_specific_mem_allocated K dev rtile =
     (let tile_specific_mem_allocated = 0;
          user_set_tile_w = (of_int (fst (tile_size rtile)) :: uint);
          user_set_tile_h = (of_int (snd (tile_size rtile)) :: uint);
          max_global_size_0 =
            (ucast (((user_set_tile_w - 1) div of_int SPLIT_KERNEL_LOCAL_SIZE_X + 1)
                      * of_int SPLIT_KERNEL_LOCAL_SIZE_X) :: size_t);
          max_global_size_1 =
            (ucast (((user_set_tile_h - 1) div of_int SPLIT_KERNEL_LOCAL_SIZE_Y + 1)
                      * of_int SPLIT_KERNEL_LOCAL_SIZE_Y) :: size_t);
          max_num_work_pools =
            (max_global_size_0 * max_global_size_1)
              div of_int (SPLIT_KERNEL_LOCAL_SIZE_X * SPLIT_KERNEL_LOCAL_SIZE_Y);
          tile_specific_mem_allocated = tile_specific_mem_allocated + max_num_work_pools * 4;
          tile_specific_mem_allocated = tile_specific_mem_allocated
            + ucast (user_set_tile_w * user_set_tile_h) * per_thread_output_buffer_size dev;
          tile_specific_mem_allocated = tile_specific_mem_allocated
            + ucast (user_set_tile_w * user_set_tile_h) * sizeof_RNG K
      in tile_specific_mem_allocated)"

definition get_scene_specific_mem_allocated ::
  "kernel_types \<Rightarrow> OpenCLDeviceSplitKernel \<Rightarrow> nat \<Rightarrow> size_t" where
  "get_scene_specific_mem_allocated K dev d_data =
     (let scene_specific_mem_allocated =
            foldl (\<lambda>acc name. acc + get_tex_size dev name) 0 (kernel_textures K);
          d_data_size = cl_mem_size dev d_data
      in scene_specific_mem_allocated + d_data_size)"

definition get_per_thread_memory :: "kernel_types \<Rightarrow> OpenCLDeviceSplitKernel \<Rightarrow> size_t" where
  "get_per_thread_memory K dev =
     (let shader_closure_size = get_shader_closure_size K (current_clos_max dev);
          shaderdata_volume = get_shader_data_size K shader_closure_size
      in sizeof_RNG K + throughput_size dev + L_transparent_size dev + rayState_size dev
           + work_element_size dev + ISLamp_size dev + sizeof_PathRadiance K + sizeof_Ray K
           + sizeof_PathState K
           + sizeof_Intersection K
           + sizeof_Intersection K
           + sizeof_Intersection K
           + shaderdata_volume
           + shaderdata_volume * 2
           + sizeof_Ray K + sizeof_BsdfEval K + AOAlpha_size dev + AOBSDF_size dev + sizeof_Ray K
           + 4 * of_int (NUM_QUEUES K)
           + per_thread_output_buffer_size dev)"

text \<open>
  \<^verbatim>\<open>get_feasible_global_work_size\<close>.  All of it is \<^verbatim>\<open>size_t\<close> arithmetic: the
  subtractions wrap around.  The division traps when the divisor is 0.
\<close>

definition get_feasible_global_work_size ::
  "kernel_types \<Rightarrow> OpenCLDeviceSplitKernel \<Rightarrow> RenderTile \<Rightarrow> nat \<Rightarrow> error + size_t" where
  "get_feasible_global_work_size K dev rtile d_data =
     (let invariable_mem_allocated = get_invariable_mem_allocated K;
          tile_specific_mem_allocated = get_tile_specific_mem_allocated K dev rtile;
          scene_specific_mem_allocated = get_scene_specific_mem_allocated K dev d_data;
          available_memory = total_allocatable_memory dev
            - invariable_mem_allocated
            - tile_specific_mem_allocated
            - scene_specific_mem_allocated
            - of_int DATA_ALLOCATION_MEM_FACTOR;
          per_thread_memory_required = get_per_thread_memory K dev
      in if per_thread_memory_required = 0 then Inl DivisionByZero
         else Inr (available_memory div per_thread_memory_required))"

section \<open>The scheduler of \<^verbatim>\<open>thread_run\<close>\<close>

text \<open>
  The local variables of \<^verbatim>\<open>thread_run\<close> that live across the tiles of a
  \<^verbatim>\<open>PATH_TRACE\<close> task.
\<close>

record thread_run_locals =
  initialize_data_and_check_render_feasibility :: bool
  need_to_split_tiles_further :: bool
  max_render_feasible_tile_size :: int2
  feasible_global_work_size :: size_t

text \<open>
  The block \<^verbatim>\<open>if(!initialize_data_and_check_render_feasibility) { ... }\<close>, run for the
  first tile only.  \<open>d_data\<close> is the handle \<^verbatim>\<open>const_mem_map["__data"]->device_pointer\<close>.
  The size of the output buffer is divided by an \<^verbatim>\<open>int\<close> product converted to
  \<^verbatim>\<open>size_t\<close>.
\<close>

definition check_render_feasibility ::
  "kernel_types \<Rightarrow> nat \<Rightarrow> OpenCLDeviceSplitKernel \<Rightarrow> thread_run_locals \<Rightarrow> RenderTile
     \<Rightarrow> error + OpenCLDeviceSplitKernel \<times> thread_run_locals" where
  "check_render_feasibility K d_data dev L tile =
     (if initialize_data_and_check_render_feasibility L then Inr (dev, L)
      else
        (let output_buffer_size = cl_mem_size dev (buffer tile);
             divisor = (if background dev
                        then (of_int (tile_w tile * tile_h tile) :: size_t)
                        else of_int (fst (buffers_params dev (buffers tile))
                                       * snd (buffers_params dev (buffers tile))))
         in if divisor = 0 then Inl DivisionByZero
            else
              (let dev = dev\<lparr>per_thread_output_buffer_size := output_buffer_size div divisor\<rparr>
               in case get_feasible_global_work_size K dev tile d_data of
                    Inl e \<Rightarrow> Inl e
                  | Inr feasible \<Rightarrow>
                      (let L = L\<lparr>feasible_global_work_size := feasible\<rparr>;
                           L = L\<lparr>max_render_feasible_tile_size :=
                                    get_max_render_feasible_tile_size (feasible_global_work_size L)\<rparr>;
                           L = L\<lparr>need_to_split_tiles_further :=
                                    need_to_split_tile (of_int (fst (tile_size tile)))
                                      (of_int (snd (tile_size tile)))
                                      (max_render_feasible_tile_size L)\<rparr>;
                           L = L\<lparr>initialize_data_and_check_render_feasibility := True\<rparr>
                       in Inr (dev, L)))))"

text \<open>
  The body of the loop \<^verbatim>\<open>while (task->acquire_tile(this, tile))\<close> up to the calls of
  \<^verbatim>\<open>path_trace\<close>: the result lists, in order, the tiles and the feasible size that
  \<^verbatim>\<open>path_trace\<close> is called with.  \<open>None\<close> is the body that never reaches a call because
  \<^verbatim>\<open>get_split_tile_size\<close> does not return.  Nothing in the body reports an error.
\<close>

definition thread_run_tile ::
  "kernel_types \<Rightarrow> nat \<Rightarrow> OpenCLDeviceSplitKernel \<Rightarrow> thread_run_locals \<Rightarrow> RenderTile
     \<Rightarrow> (error + OpenCLDeviceSplitKernel \<times> thread_run_locals \<times> (RenderTile \<times> int2) list) option" where
  "thread_run_tile K d_data dev L tile =
     (let tile = tile\<lparr>buffer_offset_x := 0\<rparr>;
          tile = tile\<lparr>buffer_offset_y := 0\<rparr>;
          tile = tile\<lparr>rng_state_offset_x := 0\<rparr>;
          tile = tile\<lparr>rng_state_offset_y := 0\<rparr>
      in case check_render_feasibility K d_data dev L tile of
           Inl e \<Rightarrow> Some (Inl e)
         | Inr (dev, L) \<Rightarrow>
             if need_to_split_tiles_further L then
               (case get_split_tile_size tile (max_render_feasible_tile_size L) of
                  None \<Rightarrow> None
                | Some split_tile_size \<Rightarrow>
                    (case split_tiles tile split_tile_size of
                       Inl e \<Rightarrow> Some (Inl e)
                     | Inr to_path_trace_render_tiles \<Rightarrow>
                         Some (Inr (dev, L,
                           map (\<lambda>t. (t, max_render_feasible_tile_size L))
                             to_path_trace_render_tiles))))
             else
               (let L = L\<lparr>max_render_feasible_tile_size :=
                          ((tdiv (fst (tile_size tile) - 1) SPLIT_KERNEL_LOCAL_SIZE_X + 1)
                             * SPLIT_KERNEL_LOCAL_SIZE_X,
                           snd (max_render_feasible_tile_size L))\<rparr>;
                    L = L\<lparr>max_render_feasible_tile_size :=
                          (fst (max_render_feasible_tile_size L),
                           (tdiv (snd (tile_size tile) - 1) SPLIT_KERNEL_LOCAL_SIZE_Y + 1)
                             * SPLIT_KERNEL_LOCAL_SIZE_Y)\<rparr>;
                    tile = tile\<lparr>buffer_rng_state_stride := stride tile\<rparr>
                in Some (Inr (dev, L, [(tile, max_render_feasible_tile_size L)]))))"

text \<open>The locals when \<^verbatim>\<open>thread_run\<close> starts a \<^verbatim>\<open>PATH_TRACE\<close> task.\<close>

definition thread_run_start :: thread_run_locals where
  "thread_run_start =
     \<lparr>initialize_data_and_check_render_feasibility = False, need_to_split_tiles_further = False,
      max_render_feasible_tile_size = (0, 0), feasible_global_work_size = 0\<rparr>"

subsection \<open>The derived quantity of the specification\<close>

text \<open>
  In the words of the specification:
  \<^verbatim>\<open>feasible_work_items = (total - invariable - per_tile - scene - safety_margin) / per_work_item\<close>,
  an exact subtraction followed by an integer division.
\<close>

definition feasible_work_items :: "int \<Rightarrow> int \<Rightarrow> int \<Rightarrow> int \<Rightarrow> int \<Rightarrow> int \<Rightarrow> int" where
  "feasible_work_items total_mem invariable per_tile scene safety_margin per_work_item =
     (total_mem - invariable - per_tile - scene - safety_margin) div per_work_item"

subsection \<open>Kernel sizes, devices and tiles\<close>

text \<open>
  Sizes of the kernel types of the magnitude that a build of the kernel has, and the
  names of two textures.
\<close>

definition cycles_kernel_types :: kernel_types where
  "cycles_kernel_types =
     \<lparr>sizeof_RNG = 4, sizeof_PathRadiance = 240, sizeof_Ray = 96, sizeof_PathState = 64,
      sizeof_Intersection = 32, sizeof_BsdfEval = 112, sizeof_ShaderClosure = 192,
      sizeof_ShaderData = 12768, sizeof_KernelGlobals = 1024, shader_soa_size = 384,
      MAX_CLOSURE = 64, NUM_QUEUES = 4, RAY_INACTIVE = 1,
      kernel_textures = [''__bvh_nodes'', ''__tri_woop'']\<rparr>"

text \<open>
  A device in a background render of a scene whose two textures take 300 MiB each and
  whose kernel data take 64 KiB; the output buffer of a tile of 64 by 64 pixels takes
  16 bytes for each pixel.  The parameter is \<^verbatim>\<open>total_allocatable_memory\<close>, which the
  constructor reads from \<^verbatim>\<open>CL_DEVICE_MAX_MEM_ALLOC_SIZE\<close>, the largest size of one
  buffer, and halves on the AMD platform: 1 GiB on a device that allows buffers of
  1 GiB, and 512 MiB on such a device of the AMD platform.
\<close>

definition render_device :: "size_t \<Rightarrow> OpenCLDeviceSplitKernel" where
  "render_device total_mem =
     \<lparr>throughput_size = 16, L_transparent_size = 4, rayState_size = 1, hostRayState_size = 1,
      work_element_size = 4, ISLamp_size = 4, AOAlpha_size = 16, AOBSDF_size = 16,
      per_thread_output_buffer_size = 0, total_allocatable_memory = total_mem,
      hostRayStateArray = [], PathIteration_times = 8, background = True,
      current_clos_max = 10, first_tile = True,
      mem_map = [''__bvh_nodes'' \<mapsto> 11, ''__tri_woop'' \<mapsto> 12],
      cl_mem_size = (\<lambda>ptr. if ptr = 1 then 65536 else if ptr = 11 then 314572800
                            else if ptr = 12 then 314572800 else if ptr = 9 then 65536 else 0),
      buffers_params = (\<lambda>b. (64, 64))\<rparr>"

text \<open>
  The device and the tile of one pixel on which the pipeline of \<^verbatim>\<open>path_trace\<close> is
  run below.
\<close>

definition small_device :: OpenCLDeviceSplitKernel where
  "small_device =
     \<lparr>throughput_size = 16, L_transparent_size = 4, rayState_size = 1, hostRayState_size = 1,
      work_element_size = 4, ISLamp_size = 4, AOAlpha_size = 16, AOBSDF_size = 16,
      per_thread_output_buffer_size = 0, total_allocatable_memory = 8589934592,
      hostRayStateArray = [], PathIteration_times = 8, background = True,
      current_clos_max = 10, first_tile = True,
      mem_map = [''__bvh_nodes'' \<mapsto> 11, ''__tri_woop'' \<mapsto> 12],
      cl_mem_size = (\<lambda>ptr. if ptr = 1 then 17179869184 else if ptr = 11 then 1048576
                            else if ptr = 12 then 1048576 else if ptr = 9 then 65536 else 0),
      buffers_params = (\<lambda>b. (1, 1))\<rparr>"

definition tile_1x1 :: RenderTile where
  "tile_1x1 =
     \<lparr>tile_x = 0, tile_y = 0, tile_w = 1, tile_h = 1, start_sample = 0, num_samples = 1,
      sample = 0, resolution = 1, offset = 0, stride = 1, buffer = 1, rng_state = 2,
      buffers = 3, rng_state_offset_x = 0, rng_state_offset_y = 0, buffer_offset_x = 0,
      buffer_offset_y = 0, buffer_rng_state_stride = 0, tile_size = (1, 1)\<rparr>"

section \<open>The wavefront pipeline of \<^verbatim>\<open>path_trace\<close>\<close>

text \<open>
  The commands that \<^verbatim>\<open>path_trace\<close> puts on the command queue: a kernel with its
  global and local work size (the macro \<^verbatim>\<open>ENQUEUE_SPLIT_KERNEL\<close>), and the blocking
  read of the given number of bytes of \<^verbatim>\<open>ray_state\<close> into \<^verbatim>\<open>hostRayStateArray\<close>.
  Commands are taken to succeed, and so are allocations; the arguments set with
  \<^verbatim>\<open>kernel_set_args\<close> and the device buffers have no part in the control flow and are
  left out.
\<close>

datatype kernel =
    DataInit | SceneIntersect | LampEmission | QueueEnqueue | BG_BufferUpdate
  | Shader_Lighting | Holdout_Emission_Blurring_Pathtermination_AO | DirectLighting
  | ShadowBlocked_DirectLighting | SetUpNextIteration | SumAllRadiance

datatype command =
    clEnqueueNDRangeKernel kernel "size_t \<times> size_t" "size_t \<times> size_t"
  | clEnqueueReadBuffer size_t

text \<open>
  The state that \<^verbatim>\<open>path_trace\<close> works on: the device members, the commands enqueued
  so far, and the two local counters of the loop.
\<close>

record path_trace_state =
  device :: OpenCLDeviceSplitKernel
  commands :: "command list"
  numHostIntervention :: uint
  numNextPathIterTimes :: uint

text \<open>The remainder of \<^verbatim>\<open>int\<close> division, which has the sign of the dividend.\<close>

definition trem :: "int \<Rightarrow> int \<Rightarrow> int" where
  "trem a b = a - tdiv a b * b"

text \<open>
  \<^verbatim>\<open>global_size\<close> of \<^verbatim>\<open>path_trace\<close> with \<^verbatim>\<open>__WORK_STEALING__\<close> defined: the
  \<^verbatim>\<open>cl_int\<close> extent minus one is converted to \<^verbatim>\<open>size_t\<close> by its division by
  \<^verbatim>\<open>local_size\<close>.
\<close>

definition local_size :: "size_t \<times> size_t" where
  "local_size = (of_int SPLIT_KERNEL_LOCAL_SIZE_X, of_int SPLIT_KERNEL_LOCAL_SIZE_Y)"

definition global_size :: "RenderTile \<Rightarrow> size_t \<times> size_t" where
  "global_size rtile =
     (let d_w = tile_w rtile;
          d_h = tile_h rtile
      in ((of_int (d_w - 1) div fst local_size + 1) * fst local_size,
          (of_int (d_h - 1) div snd local_size + 1) * snd local_size))"

text \<open>One pass of the \<^verbatim>\<open>for\<close> loop over \<^verbatim>\<open>PathIter\<close>: the nine stages in order.\<close>

definition path_iteration :: "size_t \<times> size_t \<Rightarrow> command list" where
  "path_iteration gs =
     (let global_size_shadow_blocked = (fst gs * 2, snd gs)
      in [clEnqueueNDRangeKernel SceneIntersect gs local_size,
          clEnqueueNDRangeKernel LampEmission gs local_size,
          clEnqueueNDRangeKernel QueueEnqueue gs local_size,
          clEnqueueNDRangeKernel BG_BufferUpdate gs local_size,
          clEnqueueNDRangeKernel Shader_Lighting gs local_size,
          clEnqueueNDRangeKernel Holdout_Emission_Blurring_Pathtermination_AO gs local_size,
          clEnqueueNDRangeKernel DirectLighting gs local_size,
          clEnqueueNDRangeKernel ShadowBlocked_DirectLighting global_size_shadow_blocked local_size,
          clEnqueueNDRangeKernel SetUpNextIteration gs local_size])"

text \<open>
  The scan of the host array after a read: is there, among the first
  \<^verbatim>\<open>global_size[0] * global_size[1]\<close> entries, one that differs from
  \<^verbatim>\<open>RAY_INACTIVE\<close>?
\<close>

definition activeRaysAvailable :: "kernel_types \<Rightarrow> nat \<Rightarrow> 8 word list \<Rightarrow> bool" where
  "activeRaysAvailable K n hostRayState =
     list_ex (\<lambda>c. sint c \<noteq> RAY_INACTIVE K) (take n hostRayState)"

text \<open>
  The loop \<^verbatim>\<open>while (activeRaysAvailable)\<close>.  What the device has in \<^verbatim>\<open>ray_state\<close> at
  each read is not decided by this code: the list \<open>ray_states\<close> gives the contents the
  successive reads find.  The loop goes on as long as a read finds a ray that is not
  inactive; \<open>None\<close> is the loop that is still running when all the given reads are used
  up.  A read or a scan beyond the end of an array is an error.
\<close>

fun path_iteration_loop ::
  "kernel_types \<Rightarrow> size_t \<times> size_t \<Rightarrow> 8 word list list \<Rightarrow> path_trace_state
     \<Rightarrow> (error + path_trace_state) option" where
  "path_iteration_loop K gs [] st = None"
| "path_iteration_loop K gs (ray_state # later) st =
     (let st = st\<lparr>commands := commands st
                  @ concat (replicate (unat (PathIteration_times (device st))) (path_iteration gs))\<rparr>;
          n = fst gs * snd gs * 1;
          st = st\<lparr>commands := commands st @ [clEnqueueReadBuffer n]\<rparr>
      in if length ray_state < unat n \<or> length (hostRayStateArray (device st)) < unat n
         then Some (Inl OutOfBounds)
         else
           (let st = st\<lparr>device := (device st)\<lparr>hostRayStateArray :=
                        take (unat n) ray_state @ drop (unat n) (hostRayStateArray (device st))\<rparr>\<rparr>
            in if activeRaysAvailable K (unat (fst gs * snd gs)) (hostRayStateArray (device st))
               then
                 (let st = st\<lparr>numHostIntervention := numHostIntervention st + 1\<rparr>;
                      st = st\<lparr>device := (device st)\<lparr>PathIteration_times :=
                                   of_int PATH_ITER_INC_FACTOR\<rparr>\<rparr>;
                      st = st\<lparr>numNextPathIterTimes :=
                                numNextPathIterTimes st + of_int PATH_ITER_INC_FACTOR\<rparr>
                  in path_iteration_loop K gs later st)
               else Some (Inr st)))"

text \<open>
  \<^verbatim>\<open>path_trace\<close>.  \<open>ndebug\<close> tells whether the file is compiled with \<^verbatim>\<open>NDEBUG\<close>; without
  it a failed \<^verbatim>\<open>assert\<close> ends the program.  The commands of the device and the
  device members are the state; the result is the state when \<^verbatim>\<open>path_trace\<close> returns.
\<close>

definition path_trace ::
  "kernel_types \<Rightarrow> bool \<Rightarrow> 8 word list list \<Rightarrow> OpenCLDeviceSplitKernel \<times> command list
     \<Rightarrow> RenderTile \<Rightarrow> int2 \<Rightarrow> (error + OpenCLDeviceSplitKernel \<times> command list) option" where
  "path_trace K ndebug ray_states dev_queue rtile max_size =
     (let dev = fst dev_queue;
          queue = snd dev_queue;
          d_w = tile_w rtile;
          d_h = tile_h rtile
      in if \<not> ndebug \<and> \<not> (trem (fst max_size) SPLIT_KERNEL_LOCAL_SIZE_X = 0) then Some (Inl AssertionFailed)
         else if \<not> ndebug \<and> \<not> (trem (snd max_size) SPLIT_KERNEL_LOCAL_SIZE_Y = 0) then Some (Inl AssertionFailed)
         else if \<not> ndebug \<and> \<not> (hostRayState_size dev = rayState_size dev) then Some (Inl AssertionFailed)
         else if \<not> ndebug \<and> \<not> (rayState_size dev = 1) then Some (Inl AssertionFailed)
         else
           (let gs = global_size rtile
            in if \<not> ndebug \<and> \<not> (fst gs * snd gs \<le> of_int (fst max_size * snd max_size))
               then Some (Inl AssertionFailed)
               else
                 (let dev =
                        (if first_tile dev
                         then (let num_global_elements = (of_int (fst max_size * snd max_size) :: size_t)
                               in dev\<lparr>hostRayStateArray :=
                                        replicate (unat (num_global_elements * hostRayState_size dev)) 0\<rparr>)
                         else dev);
                      queue = queue @ [clEnqueueNDRangeKernel DataInit gs local_size];
                      st = \<lparr>device = dev, commands = queue, numHostIntervention = 0,
                            numNextPathIterTimes = PathIteration_times dev\<rparr>
                  in case path_iteration_loop K gs ray_states st of
                       None \<Rightarrow> None
                     | Some (Inl e) \<Rightarrow> Some (Inl e)
                     | Some (Inr st) \<Rightarrow>
                         (let sum_all_radiance_local_size = (16 :: size_t, 16 :: size_t);
                              sum_all_radiance_global_size =
                                ((of_int (d_w - 1) div fst sum_all_radiance_local_size + 1)
                                   * fst sum_all_radiance_local_size,
                                 (of_int (d_h - 1) div snd sum_all_radiance_local_size + 1)
                                   * snd sum_all_radiance_local_size);
                              queue = commands st
                                @ [clEnqueueNDRangeKernel SumAllRadiance sum_all_radiance_global_size
                                     sum_all_radiance_local_size];
                              dev = device st;
                              dev =
                                (if numHostIntervention st = 0
                                 then dev\<lparr>PathIteration_times :=
                                        (if numNextPathIterTimes st - of_int PATH_ITER_INC_FACTOR \<le> 0
                                         then of_int PATH_ITER_INC_FACTOR
                                         else numNextPathIterTimes st - of_int PATH_ITER_INC_FACTOR)\<rparr>
                                 else dev\<lparr>PathIteration_times := numNextPathIterTimes st\<rparr>);
                              dev = dev\<lparr>first_tile := False\<rparr>
                          in Some (Inr (dev, queue))))))"

text \<open>
  In the words of the specification: a block is the rounds run between two polls
  followed by the poll, and the interventions of a tile are the polls that found a ray
  that is not inactive.
\<close>

definition block :: "size_t \<times> size_t \<Rightarrow> nat \<Rightarrow> command list" where
  "block gs rounds =
     concat (replicate rounds (path_iteration gs)) @ [clEnqueueReadBuffer (fst gs * snd gs * 1)]"

definition interventions :: "kernel_types \<Rightarrow> size_t \<times> size_t \<Rightarrow> 8 word list list \<Rightarrow> nat" where
  "interventions K gs ray_states =
     length (takeWhile (activeRaysAvailable K (unat (fst gs * snd gs))) ray_states)"

text \<open>
  The state of the loop of a tile of 64 work-items on the device above, once the host
  array is allocated, with the given starting budget.
\<close>

definition loop_start :: "uint \<Rightarrow> path_trace_state" where
  "loop_start budget =
     \<lparr>device = small_device\<lparr>hostRayStateArray := replicate 64 0, PathIteration_times := budget\<rparr>,
      commands = [], numHostIntervention = 0, numNextPathIterTimes = budget\<rparr>"

section \<open>The cache of contexts and programs\<close>

text \<open>
  \<^verbatim>\<open>class OpenCLCache\<close>.  The handles of OpenCL (\<^verbatim>\<open>cl_platform_id\<close>,
  \<^verbatim>\<open>cl_device_id\<close>, \<^verbatim>\<open>cl_context\<close>, \<^verbatim>\<open>cl_program\<close>, \<^verbatim>\<open>cl_kernel\<close>) are pointers
  that the code only compares and passes on: a handle is a number and \<^verbatim>\<open>NULL\<close> is 0.
\<close>

type_synonym cl_handle = nat

definition NULL :: cl_handle where
  "NULL = 0"

text \<open>
  \<^verbatim>\<open>struct Slot\<close>.  The field \<^verbatim>\<open>mutex\<close> records whether the mutex of the slot has
  been allocated, and \<^verbatim>\<open>context\<close> is named \<open>slot_context\<close>.  The cache is used
  here by one caller at a time; taking and releasing the lock of a slot, which orders
  the callers of several threads, is not part of the model.
\<close>

record Slot =
  mutex :: bool
  slot_context :: cl_handle
  ocl_dev_base_program :: cl_handle
  ocl_dev_megakernel_program :: cl_handle

definition Slot_new :: Slot where
  "Slot_new = \<lparr>mutex = False, slot_context = NULL, ocl_dev_base_program = NULL,
                ocl_dev_megakernel_program = NULL\<rparr>"

text \<open>
  The pointer to member \<^verbatim>\<open>T Slot::*member\<close> with which \<^verbatim>\<open>get_something\<close> and
  \<^verbatim>\<open>store_something\<close> are instantiated, and the access \<^verbatim>\<open>slot.*member\<close>.
\<close>

datatype member = Member_context | Member_ocl_dev_base_program | Member_ocl_dev_megakernel_program

fun member_of :: "member \<Rightarrow> Slot \<Rightarrow> cl_handle" where
  "member_of Member_context s = slot_context s"
| "member_of Member_ocl_dev_base_program s = ocl_dev_base_program s"
| "member_of Member_ocl_dev_megakernel_program s = ocl_dev_megakernel_program s"

fun member_update :: "member \<Rightarrow> cl_handle \<Rightarrow> Slot \<Rightarrow> Slot" where
  "member_update Member_context h s = s\<lparr>slot_context := h\<rparr>"
| "member_update Member_ocl_dev_base_program h s = s\<lparr>ocl_dev_base_program := h\<rparr>"
| "member_update Member_ocl_dev_megakernel_program h s = s\<lparr>ocl_dev_megakernel_program := h\<rparr>"

text \<open>
  The reference counting calls of OpenCL that the cache makes, in the order in which it
  makes them.
\<close>

datatype cl_call =
    clRetainContext cl_handle | clRetainProgram cl_handle
  | clReleaseContext cl_handle | clReleaseProgram cl_handle

text \<open>
  The static \<^verbatim>\<open>CacheMap cache\<close>, a \<^verbatim>\<open>std::map\<close> from the pair of platform and
  device to the slot, is the list of its entries in the order of their insertion; the
  keys of the list are distinct, and \<^verbatim>\<open>flush\<close> walks it in the order of the keys.
\<close>

type_synonym PlatformDevicePair = "cl_handle \<times> cl_handle"

record OpenCLCache =
  cache :: "(PlatformDevicePair \<times> Slot) list"
  cl_calls :: "cl_call list"

text \<open>
  \<^verbatim>\<open>cache.insert(CacheMap::value_type(key, Slot()))\<close>, which leaves an entry that is
  already there as it is, and the assignment to the slot found for a key.
\<close>

definition cache_insert ::
  "PlatformDevicePair \<Rightarrow> (PlatformDevicePair \<times> Slot) list \<Rightarrow> (PlatformDevicePair \<times> Slot) list" where
  "cache_insert key c = (if map_of c key = None then c @ [(key, Slot_new)] else c)"

definition slot_update ::
  "PlatformDevicePair \<Rightarrow> (Slot \<Rightarrow> Slot) \<Rightarrow> (PlatformDevicePair \<times> Slot) list
     \<Rightarrow> (PlatformDevicePair \<times> Slot) list" where
  "slot_update key f c = map (\<lambda>(k, s). if k = key then (k, f s) else (k, s)) c"

text \<open>
  \<^verbatim>\<open>get_something\<close> and \<^verbatim>\<open>store_something\<close>.  \<open>ndebug\<close> tells whether the file
  is compiled with \<^verbatim>\<open>NDEBUG\<close>.  Without it each \<^verbatim>\<open>assert\<close> is checked and a
  failed assertion ends the program; with it no \<^verbatim>\<open>assert\<close> is compiled, and
  \<^verbatim>\<open>store_something\<close> assigns the member whatever it holds.  The entry looked up in
  \<^verbatim>\<open>get_something\<close> has just been inserted, so the branch without an entry is
  never taken.  In \<^verbatim>\<open>store_something\<close> a key without an entry fails the assertion;
  with \<^verbatim>\<open>NDEBUG\<close> the code then reads the slot behind the end of the map.
\<close>

definition get_something ::
  "bool \<Rightarrow> cl_handle \<Rightarrow> cl_handle \<Rightarrow> member \<Rightarrow> OpenCLCache
     \<Rightarrow> error + cl_handle \<times> OpenCLCache" where
  "get_something ndebug platform dev m self =
     (if \<not> ndebug \<and> platform = NULL then Inl AssertionFailed
      else
        (let self = self\<lparr>cache := cache_insert (platform, dev) (cache self)\<rparr>;
             self = self\<lparr>cache := slot_update (platform, dev) (\<lambda>s. s\<lparr>mutex := True\<rparr>) (cache self)\<rparr>
         in case map_of (cache self) (platform, dev) of
              None \<Rightarrow> Inl OutOfBounds
            | Some slot \<Rightarrow>
                if member_of m slot = NULL then Inr (NULL, self)
                else Inr (member_of m slot, self)))"

definition store_something ::
  "bool \<Rightarrow> cl_handle \<Rightarrow> cl_handle \<Rightarrow> cl_handle \<Rightarrow> member \<Rightarrow> OpenCLCache
     \<Rightarrow> error + OpenCLCache" where
  "store_something ndebug platform dev thing m self =
     (if \<not> ndebug \<and> platform = NULL then Inl AssertionFailed
      else if \<not> ndebug \<and> dev = NULL then Inl AssertionFailed
      else if \<not> ndebug \<and> thing = NULL then Inl AssertionFailed
      else
        (case map_of (cache self) (platform, dev) of
           None \<Rightarrow> if ndebug then Inl OutOfBounds else Inl AssertionFailed
         | Some slot \<Rightarrow>
             if \<not> ndebug \<and> member_of m slot \<noteq> NULL then Inl AssertionFailed
             else Inr (self\<lparr>cache := slot_update (platform, dev) (member_update m thing) (cache self)\<rparr>)))"

text \<open>
  \<^verbatim>\<open>enum ProgramName\<close> and the four public functions of the cache.  The reference
  counting calls are taken to succeed.
\<close>

datatype ProgramName = OCL_DEV_BASE_PROGRAM | OCL_DEV_MEGAKERNEL_PROGRAM

definition get_context ::
  "bool \<Rightarrow> cl_handle \<Rightarrow> cl_handle \<Rightarrow> OpenCLCache \<Rightarrow> error + cl_handle \<times> OpenCLCache" where
  "get_context ndebug platform dev self =
     (case get_something ndebug platform dev Member_context self of
        Inl e \<Rightarrow> Inl e
      | Inr (ctx, self) \<Rightarrow>
          if ctx = NULL then Inr (NULL, self)
          else Inr (ctx, self\<lparr>cl_calls := cl_calls self @ [clRetainContext ctx]\<rparr>))"

definition get_program ::
  "bool \<Rightarrow> cl_handle \<Rightarrow> cl_handle \<Rightarrow> ProgramName \<Rightarrow> OpenCLCache \<Rightarrow> error + cl_handle \<times> OpenCLCache" where
  "get_program ndebug platform dev program_name self =
     (case (case program_name of
              OCL_DEV_BASE_PROGRAM \<Rightarrow> get_something ndebug platform dev Member_ocl_dev_base_program self
            | OCL_DEV_MEGAKERNEL_PROGRAM \<Rightarrow>
                get_something ndebug platform dev Member_ocl_dev_megakernel_program self) of
        Inl e \<Rightarrow> Inl e
      | Inr (program, self) \<Rightarrow>
          if program = NULL then Inr (NULL, self)
          else Inr (program, self\<lparr>cl_calls := cl_calls self @ [clRetainProgram program]\<rparr>))"

definition store_context ::
  "bool \<Rightarrow> cl_handle \<Rightarrow> cl_handle \<Rightarrow> cl_handle \<Rightarrow> OpenCLCache \<Rightarrow> error + OpenCLCache" where
  "store_context ndebug platform dev ctx self =
     (case store_something ndebug platform dev ctx Member_context self of
        Inl e \<Rightarrow> Inl e
      | Inr self \<Rightarrow> Inr (self\<lparr>cl_calls := cl_calls self @ [clRetainContext ctx]\<rparr>))"

definition store_program ::
  "bool \<Rightarrow> cl_handle \<Rightarrow> cl_handle \<Rightarrow> cl_handle \<Rightarrow> ProgramName \<Rightarrow> OpenCLCache \<Rightarrow> error + OpenCLCache" where
  "store_program ndebug platform dev program program_name self =
     (case (case program_name of
              OCL_DEV_BASE_PROGRAM \<Rightarrow>
                store_something ndebug platform dev program Member_ocl_dev_base_program self
            | OCL_DEV_MEGAKERNEL_PROGRAM \<Rightarrow>
                store_something ndebug platform dev program Member_ocl_dev_megakernel_program self) of
        Inl e \<Rightarrow> Inl e
      | Inr self \<Rightarrow> Inr (self\<lparr>cl_calls := cl_calls self @ [clRetainProgram program]\<rparr>))"

text \<open>
  \<^verbatim>\<open>flush\<close>: the releases made for one slot, in the order of the code, and the walk
  over all slots followed by \<^verbatim>\<open>cache.clear()\<close>.
\<close>

definition flush_slot :: "Slot \<Rightarrow> cl_call list" where
  "flush_slot s =
     (if ocl_dev_base_program s \<noteq> NULL then [clReleaseProgram (ocl_dev_base_program s)] else [])
     @ (if ocl_dev_megakernel_program s \<noteq> NULL
        then [clReleaseProgram (ocl_dev_megakernel_program s)] else [])
     @ (if slot_context s \<noteq> NULL then [clReleaseContext (slot_context s)] else [])"

definition flush :: "OpenCLCache \<Rightarrow> OpenCLCache" where
  "flush self =
     (let self = self\<lparr>cl_calls := cl_calls self
                   @ concat (map (\<lambda>item. flush_slot (snd item)) (sort_key fst (cache self)))\<rparr>
      in self\<lparr>cache := []\<rparr>)"

text \<open>
  A run of the cache: the calls of its public functions, one after the other, until
  one of them does not return.
\<close>

datatype cache_op =
    Get_context cl_handle cl_handle
  | Get_program cl_handle cl_handle ProgramName
  | Store_context cl_handle cl_handle cl_handle
  | Store_program cl_handle cl_handle cl_handle ProgramName
  | Flush

fun cache_step :: "bool \<Rightarrow> cache_op \<Rightarrow> OpenCLCache \<Rightarrow> error + OpenCLCache" where
  "cache_step ndebug (Get_context p d) self = map_sum id snd (get_context ndebug p d self)"
| "cache_step ndebug (Get_program p d n) self = map_sum id snd (get_program ndebug p d n self)"
| "cache_step ndebug (Store_context p d h) self = store_context ndebug p d h self"
| "cache_step ndebug (Store_program p d h n) self = store_program ndebug p d h n self"
| "cache_step ndebug Flush self = Inr (flush self)"

fun cache_run :: "bool \<Rightarrow> cache_op list \<Rightarrow> OpenCLCache \<Rightarrow> error + OpenCLCache" where
  "cache_run ndebug [] self = Inr self"
| "cache_run ndebug (x # xs) self =
     (case cache_step ndebug x self of Inl e \<Rightarrow> Inl e | Inr self \<Rightarrow> cache_run ndebug xs self)"

text \<open>
  The public store and get of each member of a slot, the handle that the get returns,
  and the handle held in a member of the slot of a key (\<^verbatim>\<open>NULL\<close> without a slot).
\<close>

fun store_member :: "member \<Rightarrow> cl_handle \<Rightarrow> cl_handle \<Rightarrow> cl_handle \<Rightarrow> cache_op" where
  "store_member Member_context p d h = Store_context p d h"
| "store_member Member_ocl_dev_base_program p d h = Store_program p d h OCL_DEV_BASE_PROGRAM"
| "store_member Member_ocl_dev_megakernel_program p d h = Store_program p d h OCL_DEV_MEGAKERNEL_PROGRAM"

fun get_result ::
  "bool \<Rightarrow> member \<Rightarrow> cl_handle \<Rightarrow> cl_handle \<Rightarrow> OpenCLCache \<Rightarrow> error + cl_handle" where
  "get_result ndebug Member_context p d self = map_sum id fst (get_context ndebug p d self)"
| "get_result ndebug Member_ocl_dev_base_program p d self =
     map_sum id fst (get_program ndebug p d OCL_DEV_BASE_PROGRAM self)"
| "get_result ndebug Member_ocl_dev_megakernel_program p d self =
     map_sum id fst (get_program ndebug p d OCL_DEV_MEGAKERNEL_PROGRAM self)"

definition slot_value :: "member \<Rightarrow> cl_handle \<Rightarrow> cl_handle \<Rightarrow> OpenCLCache \<Rightarrow> cl_handle" where
  "slot_value m p d self =
     (case map_of (cache self) (p, d) of None \<Rightarrow> NULL | Some slot \<Rightarrow> member_of m slot)"

text \<open>The calls that release a resource, and the release of the handle of a member.\<close>

definition is_release :: "cl_call \<Rightarrow> bool" where
  "is_release c = (case c of clReleaseContext h \<Rightarrow> True | clReleaseProgram h \<Rightarrow> True | _ \<Rightarrow> False)"

fun release_call :: "member \<Rightarrow> cl_handle \<Rightarrow> cl_call" where
  "release_call Member_context h = clReleaseContext h"
| "release_call Member_ocl_dev_base_program h = clReleaseProgram h"
| "release_call Member_ocl_dev_megakernel_program h = clReleaseProgram h"

text \<open>The cache before any call.\<close>

definition empty_cache :: OpenCLCache where
  "empty_cache = \<lparr>cache = [], cl_calls = []\<rparr>"

subsection \<open>A run of the cache\<close>

text \<open>
  A context is looked up for platform 1 and device 2, is not found, and the context 77
  is stored.  Then the context is looked up again; the base program of the slot is
  looked up, is not found, and the program 88 is stored; the context of another pair
  is looked up, is not found, and the context 99 is stored; and the context and the
  program of the first pair are looked up once more.
\<close>

definition example_cache_ops :: "cache_op list" where
  "example_cache_ops =
     [Get_context 1 2, Get_program 1 2 OCL_DEV_BASE_PROGRAM,
      Store_program 1 2 88 OCL_DEV_BASE_PROGRAM, Get_context 3 4, Store_context 3 4 99,
      Get_context 1 2, Get_program 1 2 OCL_DEV_BASE_PROGRAM]"

definition cache_after_get :: OpenCLCache where
  "cache_after_get =
     \<lparr>cache = [((1, 2), \<lparr>mutex = True, slot_context = 0, ocl_dev_base_program = 0,
                         ocl_dev_megakernel_program = 0\<rparr>)],
      cl_calls = []\<rparr>"

definition cache_after_store :: OpenCLCache where
  "cache_after_store =
     \<lparr>cache = [((1, 2), \<lparr>mutex = True, slot_context = 77, ocl_dev_base_program = 0,
                         ocl_dev_megakernel_program = 0\<rparr>)],
      cl_calls = [clRetainContext 77]\<rparr>"

definition cache_after_ops :: OpenCLCache where
  "cache_after_ops =
     \<lparr>cache = [((1, 2), \<lparr>mutex = True, slot_context = 77, ocl_dev_base_program = 88,
                         ocl_dev_megakernel_program = 0\<rparr>),
               ((3, 4), \<lparr>mutex = True, slot_context = 99, ocl_dev_base_program = 0,
                         ocl_dev_megakernel_program = 0\<rparr>)],
      cl_calls = [clRetainContext 77, clRetainContext 77, clRetainProgram 88,
                  clRetainContext 99, clRetainContext 77, clRetainProgram 88]\<rparr>"

section \<open>Loading the kernels\<close>

text \<open>
  \<^verbatim>\<open>OpenCLDeviceBase::load_kernels\<close> and the functions it calls.  An error code of
  OpenCL is an \<^verbatim>\<open>int\<close>, printed in decimal by \<^verbatim>\<open>%d\<close>.
\<close>

definition CL_SUCCESS :: int where
  "CL_SUCCESS = 0"

fun show_nat :: "nat \<Rightarrow> string" where
  "show_nat n = (if n < 10 then [char_of (48 + n)]
                 else show_nat (n div 10) @ [char_of (48 + n mod 10)])"

declare show_nat.simps [simp del]

definition show_int :: "int \<Rightarrow> string" where
  "show_int i = (if i < 0 then ''-'' @ show_nat (nat (- i)) else show_nat (nat i))"

text \<open>
  The calls that the code makes to the file system (\<^verbatim>\<open>path_exists\<close>,
  \<^verbatim>\<open>path_read_binary\<close>, \<^verbatim>\<open>path_write_binary\<close>, \<^verbatim>\<open>path_write_text\<close>) and to
  OpenCL to create, build and read programs and kernels, with the arguments that
  matter here.  The device keeps them in the order in which they are made.
\<close>

datatype api_call =
    path_exists string
  | path_read_binary string
  | path_write_binary string "8 word list"
  | path_write_text string string
  | clCreateProgramWithBinary "8 word list"
  | clCreateProgramWithSource string
  | clBuildProgram cl_handle string
  | clGetProgramInfo cl_handle string
  | clCreateKernel cl_handle string

text \<open>
  What lies outside the code: the two build and run time switches, the names and
  hashes given by the path utilities, the version strings of the platform and of the
  device with the two numbers that \<^verbatim>\<open>sscanf\<close> reads from them (none when it reads
  fewer than two), which files exist, the bytes read from a file (none when the read
  fails), whether a file can be written, and the replies of OpenCL: the program and
  the two status codes of \<^verbatim>\<open>clCreateProgramWithBinary\<close>, the program and the code of
  \<^verbatim>\<open>clCreateProgramWithSource\<close>, the code and the build log of \<^verbatim>\<open>clBuildProgram\<close>,
  the binary of a program, and the kernel and the code of \<^verbatim>\<open>clCreateKernel\<close>.
\<close>

record environment =
  CYCLES_OPENCL_DEBUG :: bool
  WITH_CYCLES_DEBUG :: bool
  clewErrorString :: "int \<Rightarrow> string"
  platform_version :: "string \<times> (int \<times> int) option"
  opencl_c_version :: "string \<times> (int \<times> int) option"
  path_get :: "string \<Rightarrow> string"
  path_user_get :: "string \<Rightarrow> string"
  path_join :: "string \<Rightarrow> string \<Rightarrow> string"
  path_files_md5_hash :: "string \<Rightarrow> string"
  device_md5_hash :: "string \<Rightarrow> string"
  path_source_replace_includes :: "string \<Rightarrow> string \<Rightarrow> string"
  file_exists :: "string \<Rightarrow> bool"
  file_binary :: "string \<Rightarrow> 8 word list option"
  file_writable :: "string \<Rightarrow> bool"
  program_from_binary :: "8 word list \<Rightarrow> cl_handle \<times> int \<times> int"
  program_from_source :: "string \<Rightarrow> cl_handle \<times> int"
  program_build :: "cl_handle \<Rightarrow> string \<Rightarrow> int \<times> string"
  program_binary :: "cl_handle \<Rightarrow> 8 word list"
  kernel_of_program :: "cl_handle \<Rightarrow> string \<Rightarrow> cl_handle \<times> int"

text \<open>
  The members of \<^verbatim>\<open>OpenCLDeviceBase\<close> that \<^verbatim>\<open>load_kernels\<close> reads or writes,
  with \<^verbatim>\<open>error_msg\<close> of the base class \<^verbatim>\<open>Device\<close>, the lines written to
  \<^verbatim>\<open>stderr\<close> and the calls made so far.  The progress lines that
  \<^verbatim>\<open>compile_kernel\<close> prints to \<^verbatim>\<open>stdout\<close> are left out.
\<close>

record OpenCLDeviceBase =
  cpPlatform :: cl_handle
  cdDevice :: cl_handle
  cxContext :: cl_handle
  cpProgram :: cl_handle
  ckFilmConvertByteKernel :: cl_handle
  ckFilmConvertHalfFloatKernel :: cl_handle
  ckShaderKernel :: cl_handle
  ckBakeKernel :: cl_handle
  ciErr :: int
  platform_name :: string
  device_initialized :: bool
  error_msg :: string
  stderr :: "string list"
  api_calls :: "api_call list"

definition opencl_kernel_use_debug :: "environment \<Rightarrow> bool" where
  "opencl_kernel_use_debug env = CYCLES_OPENCL_DEBUG env"

definition opencl_kernel_build_options :: "environment \<Rightarrow> string \<Rightarrow> string option \<Rightarrow> string" where
  "opencl_kernel_build_options env platform debug_src =
     (let build_options = '' -cl-fast-relaxed-math '';
          build_options =
            (if platform = ''NVIDIA CUDA''
             then build_options @ ''-D__KERNEL_OPENCL_NVIDIA__ -cl-nv-maxrregcount=32 -cl-nv-verbose ''
             else if platform = ''Apple''
             then build_options @ ''-D__KERNEL_OPENCL_APPLE__ ''
             else if platform = ''AMD Accelerated Parallel Processing''
             then build_options @ ''-D__KERNEL_OPENCL_AMD__ ''
             else if platform = ''Intel(R) OpenCL''
             then (let build_options = build_options @ ''-D__KERNEL_OPENCL_INTEL_CPU__ ''
                   in case debug_src of
                        Some src \<Rightarrow>
                          if opencl_kernel_use_debug env
                          then build_options @ ''-g -s '' @ [CHR 0x22] @ src @ [CHR 0x22] @ '' ''
                          else build_options
                      | None \<Rightarrow> build_options)
             else build_options);
          build_options =
            (if opencl_kernel_use_debug env then build_options @ ''-D__KERNEL_OPENCL_DEBUG__ ''
             else build_options);
          build_options =
            (if WITH_CYCLES_DEBUG env then build_options @ ''-D__KERNEL_DEBUG__ ''
             else build_options)
      in build_options)"

text \<open>
  The two overloads of \<^verbatim>\<open>opencl_error\<close>: \<open>opencl_error_message\<close> takes the
  message, \<open>opencl_error\<close> the error code and returns whether it is an error.  Both
  keep the first message in \<^verbatim>\<open>error_msg\<close> and print every message to \<^verbatim>\<open>stderr\<close>.
\<close>

definition opencl_error_message :: "string \<Rightarrow> OpenCLDeviceBase \<Rightarrow> OpenCLDeviceBase" where
  "opencl_error_message message self =
     (let self = (if error_msg self = '''' then self\<lparr>error_msg := message\<rparr> else self)
      in self\<lparr>stderr := stderr self @ [message]\<rparr>)"

definition opencl_error :: "environment \<Rightarrow> int \<Rightarrow> OpenCLDeviceBase \<Rightarrow> bool \<times> OpenCLDeviceBase" where
  "opencl_error env err self =
     (if err \<noteq> CL_SUCCESS
      then (True, opencl_error_message
                    (''OpenCL error ('' @ show_int err @ ''): '' @ clewErrorString env err) self)
      else (False, self))"

text \<open>
  \<^verbatim>\<open>opencl_version_check\<close>, with the required version 1.1.
\<close>

definition version_ok :: "int \<Rightarrow> int \<Rightarrow> bool" where
  "version_ok major minor = ((major = 1 \<and> minor \<ge> 1) \<or> major > 1)"

definition opencl_version_check :: "environment \<Rightarrow> OpenCLDeviceBase \<Rightarrow> bool \<times> OpenCLDeviceBase" where
  "opencl_version_check env self =
     (case platform_version env of
        (version, None) \<Rightarrow>
          (False, opencl_error_message
             (''OpenCL: failed to parse platform version string ('' @ version @ '').'') self)
      | (version, Some (major, minor)) \<Rightarrow>
          if \<not> version_ok major minor
          then (False, opencl_error_message
                  (''OpenCL: platform version 1.1 or later required, found ''
                     @ show_int major @ ''.'' @ show_int minor) self)
          else
            (case opencl_c_version env of
               (version, None) \<Rightarrow>
                 (False, opencl_error_message
                    (''OpenCL: failed to parse OpenCL C version string ('' @ version @ '').'') self)
             | (version, Some (major, minor)) \<Rightarrow>
                 if \<not> version_ok major minor
                 then (False, opencl_error_message
                         (''OpenCL: C version 1.1 or later required, found ''
                            @ show_int major @ ''.'' @ show_int minor) self)
                 else (True, self)))"

text \<open>
  \<^verbatim>\<open>build_kernel\<close>, \<^verbatim>\<open>load_binary\<close>, \<^verbatim>\<open>save_binary\<close> and \<^verbatim>\<open>compile_kernel\<close>.
  The program written through the pointer \<^verbatim>\<open>cl_program *program\<close> is passed in and
  returned.  The build log is printed when \<^verbatim>\<open>ret_val_size > 1\<close>, that is when it is
  not empty.  \<^verbatim>\<open>load_binary\<close> is called without \<^verbatim>\<open>debug_src\<close>.
\<close>

definition build_kernel ::
  "environment \<Rightarrow> cl_handle \<Rightarrow> string \<Rightarrow> string option \<Rightarrow> OpenCLDeviceBase
     \<Rightarrow> bool \<times> OpenCLDeviceBase" where
  "build_kernel env kernel_program custom_kernel_build_options debug_src self =
     (let build_options = opencl_kernel_build_options env (platform_name self) debug_src
                            @ custom_kernel_build_options;
          (err, build_log) = program_build env kernel_program build_options;
          self = self\<lparr>ciErr := err,
                      api_calls := api_calls self @ [clBuildProgram kernel_program build_options]\<rparr>;
          self = (if build_log \<noteq> ''''
                  then self\<lparr>stderr := stderr self @ [''OpenCL kernel build output:'', build_log]\<rparr>
                  else self)
      in if ciErr self \<noteq> CL_SUCCESS
         then (False, opencl_error_message ''OpenCL build failed: errors in console'' self)
         else (True, self))"

definition load_binary ::
  "environment \<Rightarrow> string \<Rightarrow> string \<Rightarrow> string \<Rightarrow> cl_handle \<Rightarrow> OpenCLDeviceBase
     \<Rightarrow> bool \<times> cl_handle \<times> OpenCLDeviceBase" where
  "load_binary env kernel_path clbin custom_kernel_build_options program self =
     (let self = self\<lparr>api_calls := api_calls self @ [path_read_binary clbin]\<rparr>
      in case file_binary env clbin of
           None \<Rightarrow>
             (False, program,
              opencl_error_message (''OpenCL failed to read cached binary '' @ clbin @ ''.'') self)
         | Some binary \<Rightarrow>
             (let (program, status, err) = program_from_binary env binary;
                  self = self\<lparr>ciErr := err,
                              api_calls := api_calls self @ [clCreateProgramWithBinary binary]\<rparr>;
                  (failed, self) =
                    (case opencl_error env status self of
                       (True, self) \<Rightarrow> (True, self)
                     | (False, self) \<Rightarrow> opencl_error env (ciErr self) self)
              in if failed
                 then (False, program,
                       opencl_error_message
                         (''OpenCL failed create program from cached binary '' @ clbin @ ''.'') self)
                 else
                   (case build_kernel env program custom_kernel_build_options None self of
                      (False, self) \<Rightarrow> (False, program, self)
                    | (True, self) \<Rightarrow> (True, program, self))))"

definition save_binary ::
  "environment \<Rightarrow> cl_handle \<Rightarrow> string \<Rightarrow> OpenCLDeviceBase \<Rightarrow> bool \<times> OpenCLDeviceBase" where
  "save_binary env program clbin self =
     (let self = self\<lparr>api_calls := api_calls self
                   @ [clGetProgramInfo program ''CL_PROGRAM_BINARY_SIZES'']\<rparr>;
          size = length (program_binary env program)
      in if size = 0 then (False, self)
         else
           (let binary = program_binary env program;
                self = self\<lparr>api_calls := api_calls self
                         @ [clGetProgramInfo program ''CL_PROGRAM_BINARIES'',
                            path_write_binary clbin binary]\<rparr>
            in if \<not> file_writable env clbin
               then (False, opencl_error_message
                              (''OpenCL failed to write cached binary '' @ clbin @ ''.'') self)
               else (True, self)))"

definition compile_kernel ::
  "environment \<Rightarrow> string \<Rightarrow> string \<Rightarrow> string \<Rightarrow> string option \<Rightarrow> cl_handle
     \<Rightarrow> OpenCLDeviceBase \<Rightarrow> bool \<times> cl_handle \<times> OpenCLDeviceBase" where
  "compile_kernel env kernel_path source custom_kernel_build_options debug_src kernel_program self =
     (let source = path_source_replace_includes env source kernel_path;
          self = (case debug_src of
                    Some src \<Rightarrow> self\<lparr>api_calls := api_calls self @ [path_write_text src source]\<rparr>
                  | None \<Rightarrow> self);
          (kernel_program, err) = program_from_source env source;
          self = self\<lparr>ciErr := err,
                      api_calls := api_calls self @ [clCreateProgramWithSource source]\<rparr>
      in case opencl_error env (ciErr self) self of
           (True, self) \<Rightarrow> (False, kernel_program, self)
         | (False, self) \<Rightarrow>
             (case build_kernel env kernel_program custom_kernel_build_options debug_src self of
                (False, self) \<Rightarrow> (False, kernel_program, self)
              | (True, self) \<Rightarrow> (True, kernel_program, self)))"

text \<open>
  The path of the cached binary and of the preprocessed source, as \<^verbatim>\<open>load_kernels\<close>
  computes them with its empty \<^verbatim>\<open>custom_kernel_build_options\<close>.
\<close>

definition clbin_path :: "environment \<Rightarrow> string" where
  "clbin_path env =
     path_user_get env (path_join env ''cache''
       (''cycles_kernel_'' @ device_md5_hash env '''' @ ''_''
          @ path_files_md5_hash env (path_get env ''kernel'') @ ''.clbin''))"

definition clsrc_path :: "environment \<Rightarrow> string" where
  "clsrc_path env =
     path_user_get env (path_join env ''cache''
       (''cycles_kernel_'' @ device_md5_hash env '''' @ ''_''
          @ path_files_md5_hash env (path_get env ''kernel'') @ ''.cl''))"

text \<open>
  \<^verbatim>\<open>load_kernels\<close> in three parts.  \<open>find_kernel\<close> is one \<^verbatim>\<open>clCreateKernel\<close> with
  its check of \<^verbatim>\<open>ciErr\<close>, \<open>load_kernels_kernels\<close> the four of them at the end of
  the function, and \<open>load_kernels_program\<close> the lines between the version check and
  the store into the cache: load the binary if the file exists, else compile and save.
  The lock \<^verbatim>\<open>cache_locker\<close> is not part of the model.  \<open>ndebug\<close> is handed to the
  cache, whose assertions are the only ones on the way.
\<close>

definition find_kernel ::
  "environment \<Rightarrow> string \<Rightarrow> OpenCLDeviceBase \<Rightarrow> bool \<times> cl_handle \<times> OpenCLDeviceBase" where
  "find_kernel env name self =
     (let (k, err) = kernel_of_program env (cpProgram self) name;
          self = self\<lparr>ciErr := err,
                      api_calls := api_calls self @ [clCreateKernel (cpProgram self) name]\<rparr>;
          (failed, self) = opencl_error env (ciErr self) self
      in (\<not> failed, k, self))"

definition load_kernels_kernels :: "environment \<Rightarrow> OpenCLDeviceBase \<Rightarrow> bool \<times> OpenCLDeviceBase" where
  "load_kernels_kernels env self =
     (case find_kernel env ''kernel_ocl_shader'' self of
        (ok, k, self) \<Rightarrow>
          (let self = self\<lparr>ckShaderKernel := k\<rparr> in
           if \<not> ok then (False, self)
           else case find_kernel env ''kernel_ocl_bake'' self of
             (ok, k, self) \<Rightarrow>
               (let self = self\<lparr>ckBakeKernel := k\<rparr> in
                if \<not> ok then (False, self)
                else case find_kernel env ''kernel_ocl_convert_to_byte'' self of
                  (ok, k, self) \<Rightarrow>
                    (let self = self\<lparr>ckFilmConvertByteKernel := k\<rparr> in
                     if \<not> ok then (False, self)
                     else case find_kernel env ''kernel_ocl_convert_to_half_float'' self of
                       (ok, k, self) \<Rightarrow>
                         (let self = self\<lparr>ckFilmConvertHalfFloatKernel := k\<rparr> in
                          if \<not> ok then (False, self) else (True, self))))))"

definition load_kernels_program ::
  "environment \<Rightarrow> OpenCLDeviceBase \<Rightarrow> bool \<times> OpenCLDeviceBase" where
  "load_kernels_program env self =
     (let kernel_path = path_get env ''kernel'';
          kernel_md5 = path_files_md5_hash env kernel_path;
          custom_kernel_build_options = '''';
          clbin = clbin_path env;
          debug_src = (if opencl_kernel_use_debug env then Some (clsrc_path env) else None);
          self = self\<lparr>api_calls := api_calls self @ [path_exists clbin]\<rparr>;
          (loaded, program, self) =
            (if file_exists env clbin
             then load_binary env kernel_path clbin custom_kernel_build_options (cpProgram self) self
             else (False, cpProgram self, self));
          self = self\<lparr>cpProgram := program\<rparr>
      in if loaded then (True, self)
         else
           (let init_kernel_source =
                  ''#include '' @ [CHR 0x22] @ ''kernel.cl'' @ [CHR 0x22] @ '' // ''
                    @ kernel_md5 @ [CHR 0x0A]
            in case compile_kernel env kernel_path init_kernel_source custom_kernel_build_options
                      debug_src (cpProgram self) self of
                 (False, program, self) \<Rightarrow> (False, self\<lparr>cpProgram := program\<rparr>)
               | (True, program, self) \<Rightarrow>
                   save_binary env program clbin (self\<lparr>cpProgram := program\<rparr>)))"

definition load_kernels ::
  "environment \<Rightarrow> bool \<Rightarrow> OpenCLDeviceBase \<times> OpenCLCache
     \<Rightarrow> error + bool \<times> OpenCLDeviceBase \<times> OpenCLCache" where
  "load_kernels env ndebug state =
     (case state of (self, opencl_cache) \<Rightarrow>
        if \<not> device_initialized self
        then Inr (False, self\<lparr>stderr := stderr self @ [''OpenCL: failed to initialize device.'']\<rparr>,
                  opencl_cache)
        else
          (case get_program ndebug (cpPlatform self) (cdDevice self) OCL_DEV_BASE_PROGRAM opencl_cache of
             Inl e \<Rightarrow> Inl e
           | Inr (program, opencl_cache) \<Rightarrow>
               (let self = self\<lparr>cpProgram := program\<rparr>
                in if cpProgram self = NULL
                   then
                     (case opencl_version_check env self of
                        (False, self) \<Rightarrow> Inr (False, self, opencl_cache)
                      | (True, self) \<Rightarrow>
                          (case load_kernels_program env self of
                             (False, self) \<Rightarrow> Inr (False, self, opencl_cache)
                           | (True, self) \<Rightarrow>
                               (case store_program ndebug (cpPlatform self) (cdDevice self) (cpProgram self)
                                       OCL_DEV_BASE_PROGRAM opencl_cache of
                                  Inl e \<Rightarrow> Inl e
                                | Inr opencl_cache \<Rightarrow>
                                    (case load_kernels_kernels env self of
                                       (ok, self) \<Rightarrow> Inr (ok, self, opencl_cache)))))
                   else
                     (case load_kernels_kernels env self of
                        (ok, self) \<Rightarrow> Inr (ok, self, opencl_cache)))))"

subsection \<open>Reading, compiling and saving the binary\<close>

text \<open>
  The build options and the source that \<^verbatim>\<open>load_kernels\<close> passes on; \<open>binary_loads\<close>:
  the file is read, the program is created from it and it builds; \<open>source_compiles\<close>:
  the program is created from the source and it builds.
\<close>

definition binary_options :: "environment \<Rightarrow> string \<Rightarrow> string" where
  "binary_options env platform = opencl_kernel_build_options env platform None"

definition source_options :: "environment \<Rightarrow> string \<Rightarrow> string" where
  "source_options env platform =
     opencl_kernel_build_options env platform
       (if opencl_kernel_use_debug env then Some (clsrc_path env) else None)"

definition kernel_source :: "environment \<Rightarrow> string" where
  "kernel_source env =
     path_source_replace_includes env
       (''#include '' @ [CHR 0x22] @ ''kernel.cl'' @ [CHR 0x22] @ '' // ''
          @ path_files_md5_hash env (path_get env ''kernel'') @ [CHR 0x0A])
       (path_get env ''kernel'')"

definition binary_loads :: "environment \<Rightarrow> string \<Rightarrow> bool" where
  "binary_loads env platform =
     (case file_binary env (clbin_path env) of
        None \<Rightarrow> False
      | Some binary \<Rightarrow>
          (case program_from_binary env binary of
             (program, status, err) \<Rightarrow>
               status = CL_SUCCESS \<and> err = CL_SUCCESS \<and>
               fst (program_build env program (binary_options env platform)) = CL_SUCCESS))"

definition source_compiles :: "environment \<Rightarrow> string \<Rightarrow> bool" where
  "source_compiles env platform =
     (case program_from_source env (kernel_source env) of
        (program, err) \<Rightarrow>
          err = CL_SUCCESS \<and>
          fst (program_build env program (source_options env platform)) = CL_SUCCESS)"

text \<open>
  A call that reads the cached binary, one that creates the program from source, and
  the calls of \<^verbatim>\<open>save_binary\<close>; the calls made between two states of the device;
  and the condition under which \<^verbatim>\<open>load_kernels\<close> comes to the cached binary: the
  device is initialised, the cache has no base program for it, and the version check
  passes.
\<close>

definition reads_binary :: "api_call \<Rightarrow> bool" where
  "reads_binary c = (case c of path_read_binary f \<Rightarrow> True | _ \<Rightarrow> False)"

definition creates_from_source :: "api_call \<Rightarrow> bool" where
  "creates_from_source c = (case c of clCreateProgramWithSource src \<Rightarrow> True | _ \<Rightarrow> False)"

definition saves_binary :: "api_call \<Rightarrow> bool" where
  "saves_binary c =
     (case c of clGetProgramInfo p n \<Rightarrow> True | path_write_binary f b \<Rightarrow> True | _ \<Rightarrow> False)"

definition new_calls :: "OpenCLDeviceBase \<Rightarrow> OpenCLDeviceBase \<Rightarrow> api_call list" where
  "new_calls self self' = drop (length (api_calls self)) (api_calls self')"

definition reaches_build :: "environment \<Rightarrow> OpenCLDeviceBase \<Rightarrow> OpenCLCache \<Rightarrow> bool" where
  "reaches_build env self opencl_cache =
     (device_initialized self \<and>
      slot_value Member_ocl_dev_base_program (cpPlatform self) (cdDevice self) opencl_cache = NULL \<and>
      fst (opencl_version_check env self))"

text \<open>
  Between two states of the device: the calls \<open>L\<close> were made, a recorded error message
  stays recorded and nothing is taken back from \<^verbatim>\<open>stderr\<close>; an error was reported;
  and a call that is none of the three kinds above.
\<close>

definition follows :: "OpenCLDeviceBase \<Rightarrow> OpenCLDeviceBase \<Rightarrow> api_call list \<Rightarrow> bool" where
  "follows s s' L =
     (platform_name s' = platform_name s \<and> api_calls s' = api_calls s @ L \<and>
      (error_msg s \<noteq> '''' \<longrightarrow> error_msg s' \<noteq> '''') \<and>
      length (stderr s) \<le> length (stderr s'))"

definition reported :: "OpenCLDeviceBase \<Rightarrow> OpenCLDeviceBase \<Rightarrow> bool" where
  "reported s s' = (error_msg s' \<noteq> '''' \<and> length (stderr s) < length (stderr s'))"

definition other_call :: "api_call \<Rightarrow> bool" where
  "other_call c = (\<not> reads_binary c \<and> \<not> creates_from_source c \<and> \<not> saves_binary c)"

subsection \<open>A device whose cached binary cannot be used\<close>

text \<open>
  An NVIDIA device of OpenCL 1.2 whose cached binary exists but cannot be read, while
  the source compiles and the new binary can be written; and the same with a file
  that is read but that \<^verbatim>\<open>clCreateProgramWithBinary\<close> refuses with the code -42.
\<close>

definition example_environment :: environment where
  "example_environment =
     \<lparr>CYCLES_OPENCL_DEBUG = False, WITH_CYCLES_DEBUG = False,
      clewErrorString = (\<lambda>err. ''CL_INVALID_BINARY''),
      platform_version = (''OpenCL 1.2'', Some (1, 2)),
      opencl_c_version = (''OpenCL C 1.2'', Some (1, 2)),
      path_get = (\<lambda>sub. ''/cycles/'' @ sub),
      path_user_get = (\<lambda>sub. ''/user/'' @ sub),
      path_join = (\<lambda>dir file. dir @ ''/'' @ file),
      path_files_md5_hash = (\<lambda>path. ''k0''),
      device_md5_hash = (\<lambda>options. ''d0''),
      path_source_replace_includes = (\<lambda>source path. source),
      file_exists = (\<lambda>file. True),
      file_binary = (\<lambda>file. None),
      file_writable = (\<lambda>file. True),
      program_from_binary = (\<lambda>binary. (0, - 42, - 42)),
      program_from_source = (\<lambda>source. (5, 0)),
      program_build = (\<lambda>program options. (0, '''')),
      program_binary = (\<lambda>program. [1, 2, 3]),
      kernel_of_program = (\<lambda>program name. (6, 0))\<rparr>"

definition example_base_device :: OpenCLDeviceBase where
  "example_base_device =
     \<lparr>cpPlatform = 1, cdDevice = 2, cxContext = 3, cpProgram = 0,
      ckFilmConvertByteKernel = 0, ckFilmConvertHalfFloatKernel = 0,
      ckShaderKernel = 0, ckBakeKernel = 0, ciErr = 0,
      platform_name = ''NVIDIA CUDA'', device_initialized = True,
      error_msg = '''', stderr = [], api_calls = []\<rparr>"

text \<open>
  The state of the device and of the cache after \<^verbatim>\<open>load_kernels\<close>, given the
  recorded message, the lines on \<^verbatim>\<open>stderr\<close> and the calls made after the read of the
  cached binary and before the compilation.
\<close>

definition example_clbin :: string where
  "example_clbin = ''/user/cache/cycles_kernel_d0_k0.clbin''"

definition example_source :: string where
  "example_source = ''#include '' @ [CHR 0x22] @ ''kernel.cl'' @ [CHR 0x22] @ '' // k0'' @ [CHR 0x0A]"

definition example_options :: string where
  "example_options =
     '' -cl-fast-relaxed-math -D__KERNEL_OPENCL_NVIDIA__ -cl-nv-maxrregcount=32 -cl-nv-verbose ''"

definition example_build_calls :: "api_call list" where
  "example_build_calls =
     [clCreateProgramWithSource example_source,
      clBuildProgram 5 example_options,
      clGetProgramInfo 5 ''CL_PROGRAM_BINARY_SIZES'',
      clGetProgramInfo 5 ''CL_PROGRAM_BINARIES'',
      path_write_binary example_clbin [1, 2, 3],
      clCreateKernel 5 ''kernel_ocl_shader'',
      clCreateKernel 5 ''kernel_ocl_bake'',
      clCreateKernel 5 ''kernel_ocl_convert_to_byte'',
      clCreateKernel 5 ''kernel_ocl_convert_to_half_float'']"

definition example_loaded_device :: "string \<Rightarrow> string list \<Rightarrow> api_call list \<Rightarrow> OpenCLDeviceBase" where
  "example_loaded_device msg err calls =
     \<lparr>cpPlatform = 1, cdDevice = 2, cxContext = 3, cpProgram = 5,
      ckFilmConvertByteKernel = 6, ckFilmConvertHalfFloatKernel = 6,
      ckShaderKernel = 6, ckBakeKernel = 6, ciErr = 0,
      platform_name = ''NVIDIA CUDA'', device_initialized = True,
      error_msg = msg, stderr = err,
      api_calls = [path_exists example_clbin, path_read_binary example_clbin] @ calls
                    @ example_build_calls\<rparr>"

definition example_loaded_cache :: OpenCLCache where
  "example_loaded_cache =
     \<lparr>cache = [((1, 2), \<lparr>mutex = True, slot_context = 0, ocl_dev_base_program = 5,
                         ocl_dev_megakernel_program = 0\<rparr>)],
      cl_calls = [clRetainProgram 5]\<rparr>"

definition stale_environment :: environment where
  "stale_environment = example_environment\<lparr>file_binary := (\<lambda>file. Some [7])\<rparr>"

section \<open>Proofs\<close>

subsection \<open>Arithmetic helpers\<close>

lemma tdiv_nonneg: "0 \<le> a \<Longrightarrow> 0 < b \<Longrightarrow> tdiv a b = a div b"
  by (simp add: tdiv_def sgn_if)

lemma isqrt_correct: "isqrt n * isqrt n \<le> n \<and> n < (isqrt n + 1) * (isqrt n + 1)"
proof (induction n rule: isqrt.induct)
  case (1 n)
  show ?case
  proof (cases "n < 4")
    case True
    then have "isqrt n = (if n = 0 then 0 else 1)" by (subst isqrt.simps) simp
    with True show ?thesis by auto
  next
    case False
    define m where "m = isqrt (n div 4)"
    from 1 False have IH: "m * m \<le> n div 4 \<and> n div 4 < (m + 1) * (m + 1)"
      by (simp add: m_def)
    have lo: "(2 * m) * (2 * m) \<le> n"
    proof -
      have "4 * (m * m) \<le> 4 * (n div 4)" using IH by simp
      also have "\<dots> \<le> n" by simp
      finally show ?thesis by (simp add: algebra_simps)
    qed
    have hi: "n < (2 * m + 2) * (2 * m + 2)"
    proof -
      have "n div 4 + 1 \<le> (m + 1) * (m + 1)" using IH by simp
      then have "4 * (n div 4) + 4 \<le> 4 * ((m + 1) * (m + 1))" by simp
      moreover have "n < 4 * (n div 4) + 4" by presburger
      ultimately have "n < 4 * ((m + 1) * (m + 1))" by linarith
      then show ?thesis by (simp add: algebra_simps)
    qed
    have eq: "isqrt n = (if (2 * m + 1) * (2 * m + 1) \<le> n then 2 * m + 1 else 2 * m)"
      using False by (subst isqrt.simps) (simp add: m_def Let_def)
    show ?thesis
    proof (cases "(2 * m + 1) * (2 * m + 1) \<le> n")
      case True
      then show ?thesis using hi eq by (simp add: algebra_simps)
    next
      case False
      then show ?thesis using lo eq by (simp add: algebra_simps)
    qed
  qed
qed

lemma isqrt_eqI: "m * m \<le> n \<Longrightarrow> n < (m + 1) * (m + 1) \<Longrightarrow> isqrt n = m"
proof -
  assume a: "m * m \<le> n" "n < (m + 1) * (m + 1)"
  let ?k = "isqrt n"
  have k: "?k * ?k \<le> n" "n < (?k + 1) * (?k + 1)" using isqrt_correct[of n] by auto
  have "\<not> ?k < m"
  proof
    assume "?k < m"
    then have "?k + 1 \<le> m" by linarith
    then have "(?k + 1) * (?k + 1) \<le> m * m" by (intro mult_le_mono)
    with a k show False by simp
  qed
  moreover have "\<not> m < ?k"
  proof
    assume "m < ?k"
    then have "m + 1 \<le> ?k" by linarith
    then have "(m + 1) * (m + 1) \<le> ?k * ?k" by (intro mult_le_mono)
    with a k show False by simp
  qed
  ultimately show ?thesis by simp
qed

lemma isqrt_size_t: "isqrt (unat (f :: size_t)) < 2 ^ 32"
proof (rule ccontr)
  assume "\<not> isqrt (unat f) < 2 ^ 32"
  then have "(2::nat) ^ 32 \<le> isqrt (unat f)" by (simp add: not_less)
  then have "(2::nat) ^ 32 * 2 ^ 32 \<le> isqrt (unat f) * isqrt (unat f)"
    by (intro mult_le_mono)
  also have "\<dots> \<le> unat f" using isqrt_correct by blast
  finally have "(2::nat) ^ 64 \<le> unat f" by simp
  moreover have "unat f < 2 ^ 64" using unsigned_less[of f] by simp
  ultimately show False by simp
qed

subsection \<open>The feasible tile size\<close>

lemma ceil_product_fits:
  fixes s :: int
  assumes "0 \<le> s" "s < 2 ^ 32"
  shows "0 \<le> (tdiv (s - 1) 64 + 1) * 64 * ((tdiv (s - 1) 1 + 1) * 1)"
    and "(tdiv (s - 1) 64 + 1) * 64 * ((tdiv (s - 1) 1 + 1) * 1) < 2 ^ 64"
proof -
  show "0 \<le> (tdiv (s - 1) 64 + 1) * 64 * ((tdiv (s - 1) 1 + 1) * 1)"
  proof (cases "s = 0")
    case True then show ?thesis by (simp add: tdiv_def)
  next
    case False
    with assms have "0 \<le> s - 1" by simp
    then show ?thesis using assms by (simp add: tdiv_nonneg)
  qed
  show "(tdiv (s - 1) 64 + 1) * 64 * ((tdiv (s - 1) 1 + 1) * 1) < 2 ^ 64"
  proof (cases "s = 0")
    case True then show ?thesis by (simp add: tdiv_def)
  next
    case False
    with assms have p: "0 \<le> s - 1" by simp
    have a: "((s - 1) div 64 + 1) * 64 \<le> 2 ^ 32" using assms by simp
    have b: "s \<le> 2 ^ 32 - 1" using assms by simp
    have "((s - 1) div 64 + 1) * 64 * s \<le> 2 ^ 32 * (2 ^ 32 - 1)"
      by (rule mult_mono) (use a b assms in simp_all)
    also have "\<dots> < (2::int) ^ 64" by simp
    finally show ?thesis using p by (simp add: tdiv_nonneg)
  qed
qed

lemma int32_id: "- 2147483648 \<le> v \<Longrightarrow> v < 2147483648 \<Longrightarrow> int32 v = v"
  by (simp add: int32_def)

lemma isqrt_below:
  assumes "n < (m + 1) * (m + 1)"
  shows "isqrt n \<le> m"
proof (rule ccontr)
  assume "\<not> isqrt n \<le> m"
  then have "m + 1 \<le> isqrt n" by simp
  then have "(m + 1) * (m + 1) \<le> isqrt n * isqrt n" by (intro mult_le_mono)
  also have "\<dots> \<le> n" using isqrt_correct by blast
  finally show False using assms by simp
qed

text \<open>
  While the root is at most 46336 no \<^verbatim>\<open>int\<close> operation of
  \<^verbatim>\<open>get_max_render_feasible_tile_size\<close> leaves the range of \<^verbatim>\<open>int\<close>: the
  function computes with the exact values.
\<close>

lemma ceil_sizes_in_range:
  fixes s :: int
  assumes "0 \<le> s" "s \<le> 46336"
  shows "0 \<le> tdiv (s - 1) 64" "tdiv (s - 1) 64 \<le> 723"
    and "- 1 \<le> tdiv (s - 1) 1" "tdiv (s - 1) 1 \<le> 46335"
proof -
  show "0 \<le> tdiv (s - 1) 64"
  proof (cases "s = 0")
    case True
    then show ?thesis by (simp add: tdiv_def)
  next
    case False
    with assms have p: "0 \<le> s - 1" by simp
    then have "0 \<le> (s - 1) div 64" by (simp add: pos_imp_zdiv_nonneg_iff)
    then show ?thesis using p by (simp add: tdiv_nonneg)
  qed
  show "tdiv (s - 1) 64 \<le> 723"
  proof (cases "s = 0")
    case True
    then show ?thesis by (simp add: tdiv_def)
  next
    case False
    with assms have p: "0 \<le> s - 1" by simp
    have "(s - 1) div 64 \<le> 46335 div 64" using assms by (intro zdiv_mono1) simp_all
    then show ?thesis using p by (simp add: tdiv_nonneg)
  qed
  have t1: "tdiv (s - 1) 1 = s - 1"
  proof (cases "s = 0")
    case True
    then show ?thesis by (simp add: tdiv_def)
  next
    case False
    with assms have "0 \<le> s - 1" by simp
    then show ?thesis by (simp add: tdiv_nonneg)
  qed
  show "- 1 \<le> tdiv (s - 1) 1" using assms by (simp add: t1)
  show "tdiv (s - 1) 1 \<le> 46335" using assms by (simp add: t1)
qed

lemma get_max_render_feasible_tile_size_in_range:
  assumes r: "isqrt (unat f) \<le> 46336" and s: "s = int (isqrt (unat f))"
  shows "get_max_render_feasible_tile_size f =
      (if (tdiv (s - 1) 64 + 1) * 64 * ((tdiv (s - 1) 1 + 1) * 1) \<le> uint f
       then ((tdiv (s - 1) 64 + 1) * 64, (tdiv (s - 1) 1 + 1) * 1)
       else (tdiv s 64 * 64, tdiv s 1 * 1))"
proof -
  have s0: "0 \<le> s" by (simp add: s)
  have s46: "s \<le> 46336" using r by (simp add: s)
  have iod: "int_of_double (isqrt (unat f)) = s" using r by (simp add: int_of_double_def s)
  define t64 where "t64 = tdiv (s - 1) 64"
  define t1 where "t1 = tdiv (s - 1) 1"
  have t64b: "0 \<le> t64" "t64 \<le> 723" and t1b: "- 1 \<le> t1" "t1 \<le> 46335"
    using ceil_sizes_in_range[OF s0 s46] by (simp_all add: t64_def t1_def)
  define cx where "cx = (t64 + 1) * 64"
  define cy where "cy = (t1 + 1) * 1"
  have cxb: "0 \<le> cx" "cx \<le> 46336" using t64b by (simp_all add: cx_def)
  have cyb: "0 \<le> cy" "cy \<le> 46336" using t1b by (simp_all add: cy_def)
  have "cx * cy \<le> 46336 * 46336" using cxb cyb by (intro mult_mono) simp_all
  then have pb: "cx * cy < 2147483648" by simp
  have p0: "0 \<le> cx * cy" using cxb cyb by simp
  have fl: "tdiv s 64 * 64 \<le> s" "0 \<le> tdiv s 64 * 64" "tdiv s 1 * 1 = s"
    using s0 by (simp_all add: tdiv_nonneg)
  have a1: "int32 (s - 1) = s - 1" using s0 s46 by (intro int32_id) simp_all
  have a2: "int32 (t64 + 1) = t64 + 1" using t64b by (intro int32_id) simp_all
  have a3: "int32 ((t64 + 1) * 64) = cx" using cxb by (simp add: cx_def int32_id)
  have a4: "int32 (t1 + 1) = t1 + 1" using t1b by (intro int32_id) simp_all
  have a5: "int32 ((t1 + 1) * 1) = cy" using cyb by (simp add: cy_def int32_id)
  have a6: "int32 (cx * cy) = cx * cy" using p0 pb by (intro int32_id) simp_all
  have a7: "int32 (tdiv s 64 * 64) = tdiv s 64 * 64" using fl s46 by (intro int32_id) simp_all
  have a8: "int32 (tdiv s 1 * 1) = tdiv s 1 * 1" using fl s0 s46 by (intro int32_id) simp_all
  have conv: "((of_int (cx * cy) :: size_t) \<le> f) = (cx * cy \<le> uint f)"
  proof -
    have "uint (of_int (cx * cy) :: size_t) = (cx * cy) mod 2 ^ 64"
      by (simp only: uint_word_of_int) simp
    also have "\<dots> = cx * cy"
      using p0 pb by (intro mod_pos_pos_trivial) simp_all
    finally have "uint (of_int (cx * cy) :: size_t) = cx * cy" .
    then show ?thesis by (simp add: word_le_def)
  qed
  have "get_max_render_feasible_tile_size f =
      (if cx * cy \<le> uint f then (cx, cy) else (tdiv s 64 * 64, tdiv s 1 * 1))"
    unfolding get_max_render_feasible_tile_size_def Let_def SPLIT_KERNEL_LOCAL_SIZE_X_def
      SPLIT_KERNEL_LOCAL_SIZE_Y_def iod t64_def[symmetric] t1_def[symmetric]
      a1 a2 a3 a4 a5 a6 a7 a8 conv ..
  then show ?thesis by (simp only: cx_def cy_def t64_def t1_def)
qed

text \<open>
  C10, as amended.  For every feasible count below 2,147,117,569, the square of 46337,
  no \<^verbatim>\<open>int\<close> operation of \<^verbatim>\<open>get_max_render_feasible_tile_size\<close> leaves the range
  of \<^verbatim>\<open>int\<close>, and both components of the tile size it returns are non-negative
  multiples of the 64 by 1 dispatch granularity whose product does not exceed the
  count, in the branch rounded up as in the branch rounded down.  For a count from 1
  to 63 the returned width is 0; for the count 0 the result is 64 by 0.
\<close>

theorem get_max_render_feasible_tile_size_bounds:
  assumes "f < 2147117569"
  shows "SPLIT_KERNEL_LOCAL_SIZE_X dvd fst (get_max_render_feasible_tile_size f) \<and>
   SPLIT_KERNEL_LOCAL_SIZE_Y dvd snd (get_max_render_feasible_tile_size f) \<and>
   0 \<le> fst (get_max_render_feasible_tile_size f) \<and>
   0 \<le> snd (get_max_render_feasible_tile_size f) \<and>
   fst (get_max_render_feasible_tile_size f) * snd (get_max_render_feasible_tile_size f) \<le> uint f \<and>
   (0 < f \<and> f < 64 \<longrightarrow> fst (get_max_render_feasible_tile_size f) = 0) \<and>
   (f = 0 \<longrightarrow> get_max_render_feasible_tile_size f = (64, 0))"
proof -
  define s where "s = int (isqrt (unat f))"
  have s0: "0 \<le> s" by (simp add: s_def)
  have "unat f < 2147117569" using assms by (simp add: word_less_nat_alt)
  then have "unat f < (46336 + 1) * (46336 + 1)" by simp
  then have r46: "isqrt (unat f) \<le> 46336" by (rule isqrt_below)
  then have s46: "s \<le> 46336" by (simp add: s_def)
  have sq: "s * s \<le> uint f"
  proof -
    have "int (isqrt (unat f) * isqrt (unat f)) \<le> int (unat f)"
      using isqrt_correct[of "unat f"] by (simp only: of_nat_le_iff)
    then show ?thesis by (simp add: s_def)
  qed
  define cx where "cx = (tdiv (s - 1) 64 + 1) * 64"
  define cy where "cy = (tdiv (s - 1) 1 + 1) * 1"
  have cx0: "0 \<le> cx" "64 dvd cx"
    using ceil_sizes_in_range(1)[OF s0 s46] by (simp_all add: cx_def)
  have cy0: "0 \<le> cy"
    using ceil_sizes_in_range(3)[OF s0 s46] by (simp add: cy_def)
  have unfold: "get_max_render_feasible_tile_size f =
      (if cx * cy \<le> uint f then (cx, cy) else (tdiv s 64 * 64, tdiv s 1 * 1))"
    unfolding cx_def cy_def by (rule get_max_render_feasible_tile_size_in_range[OF r46 s_def])
  have fl: "tdiv s 64 * 64 \<le> s" "0 \<le> tdiv s 64 * 64" "tdiv s 1 * 1 = s"
    using s0 by (simp_all add: tdiv_nonneg)
  have flprod: "tdiv s 64 * 64 * (tdiv s 1 * 1) \<le> uint f"
  proof -
    have "tdiv s 64 * 64 * s \<le> s * s" using fl(1) s0 by (rule mult_right_mono)
    then show ?thesis using sq fl(3) by simp
  qed
  have small: "fst (get_max_render_feasible_tile_size f) = 0" if "0 < f" "f < 64"
  proof -
    have u: "0 < uint f" "uint f < 64" using that by (simp_all add: word_less_def)
    have "s \<noteq> 0"
    proof
      assume "s = 0"
      then have "isqrt (unat f) = 0" by (simp add: s_def)
      with isqrt_correct[of "unat f"] have "unat f < 1" by simp
      then have "unat f = 0" by simp
      then have "f = 0" by (simp only: unat_eq_0)
      with that(1) show False by simp
    qed
    with s0 have s1: "1 \<le> s" by simp
    have "s * s < 64" using sq u(2) by simp
    moreover have "s * 1 \<le> s * s" using s1 s0 by (intro mult_left_mono) simp_all
    ultimately have s64: "s < 64" by simp
    have "cx = 64" using s1 s64 by (simp add: cx_def tdiv_nonneg)
    moreover have "cy = s" using s1 by (simp add: cy_def tdiv_nonneg)
    ultimately have "\<not> cx * cy \<le> uint f" using s1 u(2) by simp
    moreover have "tdiv s 64 = 0" using s0 s64 by (simp add: tdiv_nonneg)
    ultimately show ?thesis by (simp add: unfold)
  qed
  have zero: "get_max_render_feasible_tile_size f = (64, 0)" if "f = 0"
  proof -
    from that have "s = 0" by (simp add: s_def isqrt.simps[of 0])
    then have "cx = 64" "cy = 0" by (simp_all add: cx_def cy_def tdiv_def)
    then show ?thesis by (simp add: unfold)
  qed
  show ?thesis
    using cx0 cy0 fl flprod small zero s0
    by (auto simp add: unfold SPLIT_KERNEL_LOCAL_SIZE_X_def SPLIT_KERNEL_LOCAL_SIZE_Y_def)
qed

lemma get_max_render_feasible_tile_size_10: "get_max_render_feasible_tile_size 10 = (0, 3)"
proof -
  have r: "isqrt 10 = 3" by (rule isqrt_eqI) simp_all
  then have "isqrt (unat (10 :: size_t)) \<le> 46336" by simp
  from get_max_render_feasible_tile_size_in_range[OF this, of 3]
  show ?thesis by (simp add: r tdiv_def)
qed

lemma get_max_render_feasible_tile_size_0: "get_max_render_feasible_tile_size 0 = (64, 0)"
proof -
  have r: "isqrt 0 = 0" by (rule isqrt_eqI) simp_all
  then have "isqrt (unat (0 :: size_t)) \<le> 46336" by simp
  from get_max_render_feasible_tile_size_in_range[OF this, of 0]
  show ?thesis by (simp add: r tdiv_def)
qed

theorem get_max_render_feasible_tile_size_bounds_witness:
  "(10 :: size_t) < 2147117569 \<and> (0 :: size_t) < 10 \<and> (10 :: size_t) < 64 \<and>
   get_max_render_feasible_tile_size 10 = (0, 3) \<and>
   get_max_render_feasible_tile_size 0 = (64, 0)"
proof -
  have b: "(10 :: size_t) < 2147117569" "(0 :: size_t) < 2147117569" by simp_all
  from get_max_render_feasible_tile_size_bounds[OF b(1)]
    get_max_render_feasible_tile_size_bounds[OF b(2)]
    get_max_render_feasible_tile_size_10
  show ?thesis by simp
qed

text \<open>
  C10 as stated fails for the count 0, which is smaller than one granularity cell: the
  truncating division of \<open>- 1\<close> by 64 is 0, so the width rounded up is 64, and the
  product 64 times 0 passes the test of the first branch.
\<close>

theorem zero_count_width_counterexample:
  "(0 :: size_t) < 64 \<and> fst (get_max_render_feasible_tile_size 0) = 64"
  by (simp add: get_max_render_feasible_tile_size_0)

text \<open>
  From the count 2,147,117,569 on the \<^verbatim>\<open>int\<close> operations leave the range.  At the
  square of 65537 the product of the sizes rounded up, 65600 times 65537, is 4,259,904
  as an \<^verbatim>\<open>int\<close> and passes the test of the first branch.  At \<open>2 ^ 62\<close> the root is
  outside the range of \<^verbatim>\<open>int\<close>.  And the product of 65536 by 65536 is 0 as an
  \<^verbatim>\<open>int\<close>, so that every tile has to be split under that feasible size.
\<close>

lemma get_max_render_feasible_tile_size_overflow:
  "get_max_render_feasible_tile_size 4295098369 = (65600, 65537)"
  "get_max_render_feasible_tile_size 4611686018427387904 = (- 2147483648, - 2147483648)"
proof -
  have r: "isqrt 4295098369 = 65537" by (rule isqrt_eqI) simp_all
  have u: "unat (4295098369 :: size_t) = 4295098369" by simp
  have c: "int_of_double 65537 = 65537" by (simp add: int_of_double_def)
  have d: "tdiv 65536 64 = 1024" "tdiv 65536 1 = 65536" by (simp_all add: tdiv_def)
  have w: "int32 (65537 - 1) = 65536" "int32 (1024 + 1) = 1025" "int32 (65536 + 1) = 65537"
    "int32 (1025 * 64) = 65600" "int32 (65537 * 1) = 65537" "int32 (65600 * 65537) = 4259904"
    by (simp_all add: int32_def)
  show "get_max_render_feasible_tile_size 4295098369 = (65600, 65537)"
    unfolding get_max_render_feasible_tile_size_def Let_def u r c
      SPLIT_KERNEL_LOCAL_SIZE_X_def SPLIT_KERNEL_LOCAL_SIZE_Y_def w(1) d w(2-6)
    by simp
  have r: "isqrt 4611686018427387904 = 2147483648" by (rule isqrt_eqI) simp_all
  have u: "unat (4611686018427387904 :: size_t) = 4611686018427387904" by simp
  have c: "int_of_double 2147483648 = - 2147483648" by (simp add: int_of_double_def)
  have d: "tdiv 2147483647 64 = 33554431" "tdiv 2147483647 1 = 2147483647"
    by (simp_all add: tdiv_def)
  have w: "int32 (- 2147483648 - 1) = 2147483647" "int32 (33554431 + 1) = 33554432"
    "int32 (2147483647 + 1) = - 2147483648" "int32 (33554432 * 64) = - 2147483648"
    "int32 (- 2147483648 * 1) = - 2147483648" "int32 (- 2147483648 * - 2147483648) = 0"
    by (simp_all add: int32_def)
  show "get_max_render_feasible_tile_size 4611686018427387904
      = (- 2147483648, - 2147483648)"
    unfolding get_max_render_feasible_tile_size_def Let_def u r c
      SPLIT_KERNEL_LOCAL_SIZE_X_def SPLIT_KERNEL_LOCAL_SIZE_Y_def w(1) d w(2-6)
    by simp
qed

lemma need_to_split_tile_overflow: "need_to_split_tile 64 1 (65536, 65536)"
proof -
  have w: "int32 (fst (65536 :: int, 65536 :: int) * snd (65536 :: int, 65536 :: int)) = 0"
    by (simp add: int32_def)
  show ?thesis
    unfolding need_to_split_tile_def Let_def w
    by (simp add: SPLIT_KERNEL_LOCAL_SIZE_X_def SPLIT_KERNEL_LOCAL_SIZE_Y_def)
qed

subsection \<open>The halving loop\<close>

text \<open>
  Halving a width of 64 and rounding it up to the granularity gives 64 again.  So a state
  whose width is 64, whose height is at most 64 and whose area is above the budget is
  repeated for ever: the loop never returns from it.
\<close>

lemma halve_longer_dimension_stuck:
  assumes "d_h \<le> 64" "n < 64 * d_h"
  shows "halve_longer_dimension 64 d_h n = None"
proof (cases "halve_longer_dimension 64 d_h n")
  case None
  then show ?thesis .
next
  case (Some r)
  have "\<not> ((64::int) = 64 \<and> d_h \<le> 64 \<and> n < 64 * d_h)"
  proof (rule halve_longer_dimension.raw_induct
      [where P = "\<lambda>a b c r. \<not> (a = 64 \<and> b \<le> 64 \<and> c < 64 * b)", OF _ Some])
    fix f :: "int \<Rightarrow> int \<Rightarrow> int \<Rightarrow> int2 option" and a b c :: int and y :: int2
    assume IH: "\<And>a b c y. f a b c = Some y \<Longrightarrow> \<not> (a = 64 \<and> b \<le> 64 \<and> c < 64 * b)"
    assume step:
      "(if c < a * b
        then if b \<le> a
          then f ((tdiv (tdiv a 2 - 1) SPLIT_KERNEL_LOCAL_SIZE_X + 1) * SPLIT_KERNEL_LOCAL_SIZE_X) b c
          else f a ((tdiv (tdiv b 2 - 1) SPLIT_KERNEL_LOCAL_SIZE_Y + 1) * SPLIT_KERNEL_LOCAL_SIZE_Y) c
        else Some (a, b)) = Some y"
    show "\<not> (a = 64 \<and> b \<le> 64 \<and> c < 64 * b)"
    proof
      assume stuck: "a = 64 \<and> b \<le> 64 \<and> c < 64 * b"
      with step have "f 64 b c = Some y"
        by (simp add: tdiv_def SPLIT_KERNEL_LOCAL_SIZE_X_def)
      from IH[OF this] stuck show False by simp
    qed
  qed
  with assms show ?thesis by simp
qed

text \<open>
  C4 fails on the code.  A feasible count of 4032 work-items gives the positive budget
  64 times 63; the usual tile of 64 by 64 pixels has to be split under it, and the
  halving loop of \<^verbatim>\<open>get_split_tile_size\<close> started on that tile never returns.
\<close>

theorem get_split_tile_size_never_returns:
  "get_max_render_feasible_tile_size 4032 = (64, 63) \<and>
   0 < fst (get_max_render_feasible_tile_size 4032) * snd (get_max_render_feasible_tile_size 4032) \<and>
   need_to_split_tile 64 64 (get_max_render_feasible_tile_size 4032) \<and>
   get_split_tile_size tile_64x64 (get_max_render_feasible_tile_size 4032) = None"
proof -
  have r: "isqrt 4032 = 63" by (rule isqrt_eqI) simp_all
  then have "isqrt (unat (4032 :: size_t)) \<le> 46336" by simp
  from get_max_render_feasible_tile_size_in_range[OF this, of 63]
  have m: "get_max_render_feasible_tile_size 4032 = (64, 63)" by (simp add: r tdiv_def)
  have w: "int32 (fst (64 :: int, 63 :: int) * snd (64 :: int, 63 :: int)) = 4032"
    by (simp add: int32_def)
  have n: "need_to_split_tile 64 64 (64, 63)"
    unfolding need_to_split_tile_def Let_def w
    by (simp add: SPLIT_KERNEL_LOCAL_SIZE_X_def SPLIT_KERNEL_LOCAL_SIZE_Y_def)
  have "halve_longer_dimension 64 64 (64 * 63) = None"
    by (rule halve_longer_dimension_stuck) simp_all
  then have g: "get_split_tile_size tile_64x64 (64, 63) = None"
    by (simp add: get_split_tile_size_def tile_64x64_def Let_def tdiv_def
        SPLIT_KERNEL_LOCAL_SIZE_X_def SPLIT_KERNEL_LOCAL_SIZE_Y_def)
  show ?thesis using m n g by simp
qed

subsection \<open>Splitting a tile\<close>

lemma rtile_index_in_range:
  fixes tile_iter_x tile_iter_y num_tiles_x num_tiles_y :: int
  assumes "0 \<le> tile_iter_x" "tile_iter_x < num_tiles_x" "0 \<le> tile_iter_y" "tile_iter_y < num_tiles_y"
  shows "0 \<le> tile_iter_y * num_tiles_x + tile_iter_x \<and>
         nat (tile_iter_y * num_tiles_x + tile_iter_x) < nat (num_tiles_x * num_tiles_y)"
proof -
  have "tile_iter_y + 1 \<le> num_tiles_y" using assms by simp
  then have "(tile_iter_y + 1) * num_tiles_x \<le> num_tiles_y * num_tiles_x"
    using assms by (intro mult_right_mono) simp_all
  then have "tile_iter_y * num_tiles_x + tile_iter_x < num_tiles_x * num_tiles_y"
    using assms by (simp add: algebra_simps)
  moreover have "0 \<le> tile_iter_y * num_tiles_x" using assms by simp
  ultimately show ?thesis using assms by simp
qed

lemma fill_tile_const:
  "fill_tile rtile sz d_w d_h nx ny ox oy i j t = fill_tile rtile sz d_w d_h nx ny ox oy i j t'"
  by (cases t, cases t') (simp add: fill_tile_def Let_def)

lemma fill_tile_fields:
  "tile_x (fill_tile rtile sz d_w d_h nx ny ox oy i j t) = tile_x rtile + i * fst sz"
  "tile_y (fill_tile rtile sz d_w d_h nx ny ox oy i j t) = tile_y rtile + j * snd sz"
  "tile_w (fill_tile rtile sz d_w d_h nx ny ox oy i j t) = (if i = nx - 1 then d_w - i * fst sz else fst sz)"
  "tile_h (fill_tile rtile sz d_w d_h nx ny ox oy i j t) = (if j = ny - 1 then d_h - j * snd sz else snd sz)"
  by (simp_all add: fill_tile_def Let_def)

lemma nth_list_update_any:
  "k < length xs \<Longrightarrow> xs[i := a] ! k = (if k = i then a else xs ! k)"
  by (cases "i < length xs") (auto simp: nth_list_update)

lemma split_tiles_row_prefix:
  fixes NX j m :: nat
  assumes F: "F = (\<lambda>v tile_iter_x.
              (let rtile_index = int j * int NX + tile_iter_x
               in v[nat rtile_index :=
                      fill_tile rtile sz d_w d_h (int NX) ny ox oy tile_iter_x (int j) (v ! nat rtile_index)]))"
  shows "length (foldl F v (map int [0..<m])) = length v \<and>
         (\<forall>k < length v. foldl F v (map int [0..<m]) ! k =
            (if j * NX \<le> k \<and> k < j * NX + m
             then fill_tile rtile sz d_w d_h (int NX) ny ox oy (int (k - j * NX)) (int j) RenderTile_new
             else v ! k))"
proof (induction m)
  case 0
  show ?case by auto
next
  case (Suc m)
  let ?r = "foldl F v (map int [0..<m])"
  have idx: "nat (int j * int NX + int m) = j * NX + m"
    by (simp add: nat_add_distrib nat_mult_distrib)
  have step: "foldl F v (map int [0..<Suc m]) =
      ?r[j * NX + m :=
         fill_tile rtile sz d_w d_h (int NX) ny ox oy (int m) (int j) (?r ! (j * NX + m))]"
    by (simp add: F Let_def idx)
  show ?case
  proof (intro conjI allI impI)
    show "length (foldl F v (map int [0..<Suc m])) = length v" using Suc by (simp only: step length_list_update)
  next
    fix k assume k: "k < length v"
    then have k': "k < length ?r" using Suc by simp
    show "foldl F v (map int [0..<Suc m]) ! k =
            (if j * NX \<le> k \<and> k < j * NX + Suc m
             then fill_tile rtile sz d_w d_h (int NX) ny ox oy (int (k - j * NX)) (int j) RenderTile_new
             else v ! k)"
    proof (cases "k = j * NX + m")
      case True
      have "foldl F v (map int [0..<Suc m]) ! k =
          fill_tile rtile sz d_w d_h (int NX) ny ox oy (int m) (int j) (?r ! (j * NX + m))"
        using k' True by (simp only: step nth_list_update_any) simp
      also have "\<dots> = fill_tile rtile sz d_w d_h (int NX) ny ox oy (int m) (int j) RenderTile_new"
        by (rule fill_tile_const)
      finally show ?thesis using True by simp
    next
      case False
      have "foldl F v (map int [0..<Suc m]) ! k = ?r ! k"
        using k' False by (simp only: step nth_list_update_any) simp
      then show ?thesis using k False Suc by auto
    qed
  qed
qed

lemma split_tiles_row_nth:
  fixes NX j :: nat
  shows "length (split_tiles_row rtile sz d_w d_h (int NX) ny ox oy (int j) v) = length v \<and>
         (\<forall>k < length v. split_tiles_row rtile sz d_w d_h (int NX) ny ox oy (int j) v ! k =
            (if j * NX \<le> k \<and> k < j * NX + NX
             then fill_tile rtile sz d_w d_h (int NX) ny ox oy (int (k - j * NX)) (int j) RenderTile_new
             else v ! k))"
  unfolding split_tiles_row_def nat_int
  by (rule split_tiles_row_prefix) (rule refl)

lemma split_tiles_rows_prefix:
  fixes NX m :: nat
  assumes G: "G = (\<lambda>v tile_iter_y.
       split_tiles_row rtile sz d_w d_h (int NX) ny ox oy tile_iter_y v)"
  shows "length (foldl G v (map int [0..<m])) = length v \<and>
         (\<forall>k < length v. foldl G v (map int [0..<m]) ! k =
            (if k < m * NX
             then fill_tile rtile sz d_w d_h (int NX) ny ox oy (int (k mod NX)) (int (k div NX)) RenderTile_new
             else v ! k))"
proof (induction m)
  case 0
  show ?case by simp
next
  case (Suc m)
  let ?r = "foldl G v (map int [0..<m])"
  have step: "foldl G v (map int [0..<Suc m]) =
      split_tiles_row rtile sz d_w d_h (int NX) ny ox oy (int m) ?r"
    by (simp add: G)
  note row = split_tiles_row_nth[of rtile sz d_w d_h NX ny ox oy m ?r]
  show ?case
  proof (intro conjI allI impI)
    show "length (foldl G v (map int [0..<Suc m])) = length v" using Suc row by (simp only: step)
  next
    fix k assume k: "k < length v"
    then have k': "k < length ?r" using Suc by simp
    show "foldl G v (map int [0..<Suc m]) ! k =
            (if k < Suc m * NX
             then fill_tile rtile sz d_w d_h (int NX) ny ox oy (int (k mod NX)) (int (k div NX)) RenderTile_new
             else v ! k)"
    proof (cases "m * NX \<le> k \<and> k < m * NX + NX")
      case True
      then have "k div NX = m"
        by (intro div_nat_eqI) (simp_all add: algebra_simps)
      moreover from this have "k mod NX = k - m * NX"
        using True by (metis add_diff_cancel_left' div_mult_mod_eq mult.commute)
      ultimately show ?thesis using True row k' by (simp only: step) simp
    next
      case False
      have "foldl G v (map int [0..<Suc m]) ! k = ?r ! k"
        using False row k' by (simp only: step) simp
      then show ?thesis using False k Suc by auto
    qed
  qed
qed

lemma ceil_ratio_eq:
  assumes "0 < a" "0 < b"
  shows "ceil_ratio a b = (a - 1) div b + 1"
proof -
  define q where "q = (a - 1) div b"
  define r where "r = (a - 1) mod b"
  have r: "0 \<le> r" "r < b" using assms by (simp_all add: r_def)
  have a: "a - 1 = b * q + r" by (simp add: q_def r_def)
  have "- a = b * (- q - 1) + (b - r - 1)" using a by (simp add: algebra_simps)
  then have "(- a) div b = - q - 1"
    using r by (intro int_div_pos_eq[of _ _ _ "b - r - 1"]) simp_all
  then show ?thesis
    by (simp add: ceil_ratio_def ceiling_divide_eq_div q_def)
qed

lemma strip_facts:
  fixes w s :: int
  assumes "0 < w" "0 < s"
  shows "((w - 1) div s) * s \<le> w - 1" and "w - 1 < ((w - 1) div s + 1) * s" and "0 \<le> (w - 1) div s"
proof -
  have m: "0 \<le> (w - 1) mod s" "(w - 1) mod s < s" using assms by simp_all
  have e: "w - 1 = ((w - 1) div s) * s + (w - 1) mod s" by simp
  show "((w - 1) div s) * s \<le> w - 1" using e m(1) by linarith
  have "((w - 1) div s + 1) * s = ((w - 1) div s) * s + s" by (simp add: algebra_simps)
  then show "w - 1 < ((w - 1) div s + 1) * s" using e m(2) by linarith
  show "0 \<le> (w - 1) div s" using assms by (simp add: pos_imp_zdiv_nonneg_iff)
qed

lemma strip_within:
  fixes w s i :: int
  assumes "0 < w" "0 < s" "0 \<le> i" "i < (w - 1) div s + 1"
  shows "0 < (if i = (w - 1) div s + 1 - 1 then w - i * s else s) \<and>
         (if i = (w - 1) div s + 1 - 1 then w - i * s else s) \<le> s \<and>
         i * s + (if i = (w - 1) div s + 1 - 1 then w - i * s else s) \<le> w"
proof (cases "i = (w - 1) div s")
  case True
  then show ?thesis using strip_facts[OF assms(1,2)] by (simp add: algebra_simps)
next
  case False
  with assms have "i + 1 \<le> (w - 1) div s" by simp
  then have "(i + 1) * s \<le> ((w - 1) div s) * s" using assms(2) by (intro mult_right_mono) simp_all
  then have "(i + 1) * s \<le> w - 1" using strip_facts(1)[OF assms(1,2)] by linarith
  then show ?thesis using False assms by (simp add: algebra_simps)
qed

lemma strip_unique:
  fixes w s i p :: int
  assumes "0 < w" "0 < s" "0 \<le> i" "i < (w - 1) div s + 1"
    and "i * s \<le> p" "p < i * s + (if i = (w - 1) div s + 1 - 1 then w - i * s else s)"
  shows "p div s = i"
proof -
  have "p < i * s + s" using strip_within[OF assms(1-4)] assms(6) by linarith
  then show ?thesis
    using assms(2,5) by (intro int_div_pos_eq[of _ _ _ "p - i * s"]) (simp_all add: algebra_simps)
qed

lemma strip_cover:
  fixes w s p :: int
  assumes "0 < w" "0 < s" "0 \<le> p" "p < w"
  shows "0 \<le> p div s \<and> p div s < (w - 1) div s + 1 \<and> (p div s) * s \<le> p \<and>
         p < (p div s) * s + (if p div s = (w - 1) div s + 1 - 1 then w - (p div s) * s else s)"
proof -
  have m: "0 \<le> p mod s" "p mod s < s" using assms by simp_all
  have e: "p = (p div s) * s + p mod s" by simp
  have a: "0 \<le> p div s" using assms by (simp add: pos_imp_zdiv_nonneg_iff)
  have b: "p div s \<le> (w - 1) div s" using assms by (intro zdiv_mono1) simp_all
  have c: "(p div s) * s \<le> p" using e m(1) by linarith
  have d: "p < (p div s) * s + s" using e m(2) by linarith
  show ?thesis using a b c d assms by auto
qed

lemma split_tiles_closed_form:
  assumes pos: "0 < tile_w rtile" "0 < tile_h rtile" "0 < fst sz" "0 < snd sz"
    and ret: "split_tiles rtile sz = Inr tiles"
  defines "nx \<equiv> (tile_w rtile - 1) div fst sz + 1"
    and "ny \<equiv> (tile_h rtile - 1) div snd sz + 1"
  shows "\<exists>ox oy. length tiles = nat nx * nat ny \<and>
           (\<forall>k < nat nx * nat ny. tiles ! k =
              fill_tile rtile sz (tile_w rtile) (tile_h rtile) nx ny ox oy
                (int (k mod nat nx)) (int (k div nat nx)) RenderTile_new)"
proof -
  have tx: "tdiv (tile_w rtile - 1) (fst sz) + 1 = nx"
    using pos by (simp add: nx_def tdiv_nonneg)
  have ty: "tdiv (tile_h rtile - 1) (snd sz) + 1 = ny"
    using pos by (simp add: ny_def tdiv_nonneg)
  have nx0: "0 < nx" using strip_facts(3)[OF pos(1) pos(3)] by (simp add: nx_def)
  have ny0: "0 < ny" using strip_facts(3)[OF pos(2) pos(4)] by (simp add: ny_def)
  have nn: "\<not> nx * ny < 0" using nx0 ny0 by (simp add: not_less)
  define ox :: size_t where
    "ox = of_int (offset rtile + (tile_x rtile + tile_y rtile * stride rtile)) mod of_int (stride rtile)"
  define oy :: size_t where
    "oy = of_int (offset rtile + (tile_x rtile + tile_y rtile * stride rtile)) div of_int (stride rtile)"
  define G where "G = (\<lambda>v tile_iter_y.
       split_tiles_row rtile sz (tile_w rtile) (tile_h rtile) (int (nat nx)) ny ox oy tile_iter_y v)"
  have nxn: "int (nat nx) = nx" using nx0 by simp
  have tiles: "tiles = foldl G (replicate (nat (nx * ny)) RenderTile_new) (map int [0..<nat ny])"
    using ret pos nn nx0
    by (simp add: split_tiles_def Let_def tx ty G_def ox_def oy_def split: if_splits)
  have len: "nat (nx * ny) = nat nx * nat ny" using nx0 ny0 by (simp add: nat_mult_distrib)
  note P = split_tiles_rows_prefix[OF G_def, of "replicate (nat (nx * ny)) RenderTile_new" "nat ny"]
  have "length tiles = nat nx * nat ny" using P len by (simp add: tiles)
  moreover have "\<forall>k < nat nx * nat ny. tiles ! k =
              fill_tile rtile sz (tile_w rtile) (tile_h rtile) nx ny ox oy
                (int (k mod nat nx)) (int (k div nat nx)) RenderTile_new"
  proof (intro allI impI)
    fix k assume k: "k < nat nx * nat ny"
    then have "k < nat ny * nat nx" by (simp add: mult.commute)
    with k P len show "tiles ! k =
              fill_tile rtile sz (tile_w rtile) (tile_h rtile) nx ny ox oy
                (int (k mod nat nx)) (int (k div nat nx)) RenderTile_new"
      by (simp add: tiles nxn)
  qed
  ultimately show ?thesis by blast
qed

text \<open>
  C1.  For a tile of positive width and height and a split size of positive extents, the
  sequence that \<^verbatim>\<open>split_tiles\<close> returns has
  \<open>\<lceil>w / split_x\<rceil> * \<lceil>h / split_y\<rceil>\<close> sub-tiles in row-major order: the sub-tile of
  column \<open>i\<close> and row \<open>j\<close> is at index \<open>j * \<lceil>w / split_x\<rceil> + i\<close> and starts at
  \<open>(x + i * split_x, y + j * split_y)\<close>.  Its extent is the split size, but in the
  last column the width, and in the last row the height, is the remainder, which is
  positive and at most the split size.  The pixel rectangles of the sub-tiles are
  pairwise disjoint and their union is the rectangle of the tile.
\<close>

theorem split_tiles_partition:
  assumes pos: "0 < tile_w rtile" "0 < tile_h rtile" "0 < fst sz" "0 < snd sz"
    and ret: "split_tiles rtile sz = Inr tiles"
  shows "int (length tiles) = ceil_ratio (tile_w rtile) (fst sz) * ceil_ratio (tile_h rtile) (snd sz) \<and>
    (\<forall>i j. 0 \<le> i \<and> i < ceil_ratio (tile_w rtile) (fst sz) \<and>
           0 \<le> j \<and> j < ceil_ratio (tile_h rtile) (snd sz) \<longrightarrow>
       tile_x (tiles ! nat (j * ceil_ratio (tile_w rtile) (fst sz) + i)) = tile_x rtile + i * fst sz \<and>
       tile_y (tiles ! nat (j * ceil_ratio (tile_w rtile) (fst sz) + i)) = tile_y rtile + j * snd sz \<and>
       tile_w (tiles ! nat (j * ceil_ratio (tile_w rtile) (fst sz) + i)) =
         (if i = ceil_ratio (tile_w rtile) (fst sz) - 1 then tile_w rtile - i * fst sz else fst sz) \<and>
       tile_h (tiles ! nat (j * ceil_ratio (tile_w rtile) (fst sz) + i)) =
         (if j = ceil_ratio (tile_h rtile) (snd sz) - 1 then tile_h rtile - j * snd sz else snd sz)) \<and>
    0 < tile_w rtile - (ceil_ratio (tile_w rtile) (fst sz) - 1) * fst sz \<and>
    tile_w rtile - (ceil_ratio (tile_w rtile) (fst sz) - 1) * fst sz \<le> fst sz \<and>
    0 < tile_h rtile - (ceil_ratio (tile_h rtile) (snd sz) - 1) * snd sz \<and>
    tile_h rtile - (ceil_ratio (tile_h rtile) (snd sz) - 1) * snd sz \<le> snd sz \<and>
    (\<forall>a b. a < length tiles \<and> b < length tiles \<and> a \<noteq> b \<longrightarrow>
       pixels (tiles ! a) \<inter> pixels (tiles ! b) = {}) \<and>
    (\<Union>t \<in> set tiles. pixels t) = pixels rtile"
proof -
  define w h sx sy x0 y0 where "w = tile_w rtile" and "h = tile_h rtile"
    and "sx = fst sz" and "sy = snd sz" and "x0 = tile_x rtile" and "y0 = tile_y rtile"
  define nx ny where "nx = (w - 1) div sx + 1" and "ny = (h - 1) div sy + 1"
  define wd where "wd = (\<lambda>i. if i = nx - 1 then w - i * sx else sx)"
  define ht where "ht = (\<lambda>j. if j = ny - 1 then h - j * sy else sy)"
  have p: "0 < w" "0 < h" "0 < sx" "0 < sy" using pos by (simp_all add: w_def h_def sx_def sy_def)
  have crx: "ceil_ratio (tile_w rtile) (fst sz) = nx"
    using pos by (simp add: ceil_ratio_eq nx_def w_def sx_def)
  have cry: "ceil_ratio (tile_h rtile) (snd sz) = ny"
    using pos by (simp add: ceil_ratio_eq ny_def h_def sy_def)
  have nx0: "0 < nx" using strip_facts(3)[OF p(1) p(3)] by (simp add: nx_def)
  have ny0: "0 < ny" using strip_facts(3)[OF p(2) p(4)] by (simp add: ny_def)
  obtain ox oy where len: "length tiles = nat nx * nat ny"
    and nth: "\<And>k. k < nat nx * nat ny \<Longrightarrow> tiles ! k =
              fill_tile rtile sz w h nx ny ox oy (int (k mod nat nx)) (int (k div nat nx)) RenderTile_new"
    using split_tiles_closed_form[OF pos ret]
    by (auto simp add: nx_def ny_def w_def h_def sx_def sy_def)
  have idx: "nat (j * nx + i) < nat nx * nat ny \<and>
             int (nat (j * nx + i) mod nat nx) = i \<and> int (nat (j * nx + i) div nat nx) = j"
    if "0 \<le> i" "i < nx" "0 \<le> j" "j < ny" for i j
  proof -
    have e: "nat (j * nx + i) = nat j * nat nx + nat i"
      using that nx0 by (simp add: nat_add_distrib nat_mult_distrib)
    have i: "nat i < nat nx" using that by simp
    have "nat j + 1 \<le> nat ny" using that by simp
    then have "(nat j + 1) * nat nx \<le> nat ny * nat nx" by (rule mult_le_mono1)
    then have "nat j * nat nx + nat nx \<le> nat ny * nat nx" by (simp add: algebra_simps)
    then have "nat j * nat nx + nat i < nat ny * nat nx" using i by linarith
    then have "nat j * nat nx + nat i < nat nx * nat ny" by (simp only: mult.commute)
    then show ?thesis using e i that by simp
  qed
  have ij: "0 \<le> int (k mod nat nx) \<and> int (k mod nat nx) < nx \<and>
            0 \<le> int (k div nat nx) \<and> int (k div nat nx) < ny \<and>
            k = nat (int (k div nat nx) * nx + int (k mod nat nx))"
    if "k < nat nx * nat ny" for k
  proof -
    have a: "k mod nat nx < nat nx" using nx0 by simp
    have b: "k div nat nx < nat ny" using that nx0 by (simp add: less_mult_imp_div_less mult.commute)
    have c: "int (k div nat nx) * nx + int (k mod nat nx) = int k"
    proof -
      have "int (k div nat nx) * int (nat nx) + int (k mod nat nx) = int (k div nat nx * nat nx + k mod nat nx)"
        by (simp only: of_nat_add of_nat_mult)
      then show ?thesis using nx0 by simp
    qed
    have a': "int (k mod nat nx) < nx" using a by (simp only: zless_nat_eq_int_zless)
    have b': "int (k div nat nx) < ny" using b by (simp only: zless_nat_eq_int_zless)
    have "k = nat (int (k div nat nx) * nx + int (k mod nat nx))" by (simp only: c nat_int)
    then show ?thesis using a' b' by simp
  qed
  have fx: "tile_x (tiles ! k) = x0 + int (k mod nat nx) * sx"
    and fy: "tile_y (tiles ! k) = y0 + int (k div nat nx) * sy"
    and fw: "tile_w (tiles ! k) = wd (int (k mod nat nx))"
    and fh: "tile_h (tiles ! k) = ht (int (k div nat nx))"
    if "k < nat nx * nat ny" for k
    using nth[OF that]
    by (simp_all add: fill_tile_fields x0_def y0_def sx_def sy_def wd_def ht_def)
  have wdb: "0 < wd i \<and> wd i \<le> sx \<and> i * sx + wd i \<le> w" if "0 \<le> i" "i < nx" for i
    using strip_within[OF p(1) p(3), of i] that unfolding wd_def nx_def by simp
  have htb: "0 < ht j \<and> ht j \<le> sy \<and> j * sy + ht j \<le> h" if "0 \<le> j" "j < ny" for j
    using strip_within[OF p(2) p(4), of j] that unfolding ht_def ny_def by simp
  have sux: "q div sx = i" if "0 \<le> i" "i < nx" "i * sx \<le> q" "q < i * sx + wd i" for i q
    using strip_unique[OF p(1) p(3), of i q] that unfolding nx_def wd_def by simp
  have suy: "q div sy = j" if "0 \<le> j" "j < ny" "j * sy \<le> q" "q < j * sy + ht j" for j q
    using strip_unique[OF p(2) p(4), of j q] that unfolding ny_def ht_def by simp
  have scx: "0 \<le> q div sx \<and> q div sx < nx \<and> (q div sx) * sx \<le> q \<and> q < (q div sx) * sx + wd (q div sx)"
    if "0 \<le> q" "q < w" for q
    using strip_cover[OF p(1) p(3) that] unfolding nx_def wd_def by simp
  have scy: "0 \<le> q div sy \<and> q div sy < ny \<and> (q div sy) * sy \<le> q \<and> q < (q div sy) * sy + ht (q div sy)"
    if "0 \<le> q" "q < h" for q
    using strip_cover[OF p(2) p(4) that] unfolding ny_def ht_def by simp
  have inside: "int (k mod nat nx) = (px - x0) div sx \<and> int (k div nat nx) = (py - y0) div sy \<and>
                (px, py) \<in> pixels rtile"
    if k: "k < nat nx * nat ny" and m: "(px, py) \<in> pixels (tiles ! k)" for k px py
  proof -
    let ?i = "int (k mod nat nx)" and ?j = "int (k div nat nx)"
    from m have mx: "?i * sx \<le> px - x0" "px - x0 < ?i * sx + wd ?i"
      and my: "?j * sy \<le> py - y0" "py - y0 < ?j * sy + ht ?j"
      by (simp_all add: pixels_def fx[OF k] fy[OF k] fw[OF k] fh[OF k])
    have r: "0 \<le> ?i" "?i < nx" "0 \<le> ?j" "?j < ny" using ij[OF k] by simp_all
    have "(px - x0) div sx = ?i"
      by (rule sux[OF r(1,2) mx])
    moreover have "(py - y0) div sy = ?j"
      by (rule suy[OF r(3,4) my])
    moreover have "(px, py) \<in> pixels rtile"
    proof -
      have nn: "0 \<le> ?i * sx" "0 \<le> ?j * sy" using p by simp_all
      have "x0 \<le> px \<and> px < x0 + w \<and> y0 \<le> py \<and> py < y0 + h"
        using nn wdb[OF r(1,2)] htb[OF r(3,4)] mx my by linarith
      then show ?thesis by (simp add: pixels_def x0_def y0_def w_def h_def)
    qed
    ultimately show ?thesis by simp
  qed
  have covered: "nat (((py - y0) div sy) * nx + (px - x0) div sx) < nat nx * nat ny \<and>
                 (px, py) \<in> pixels (tiles ! nat (((py - y0) div sy) * nx + (px - x0) div sx))"
    if m: "(px, py) \<in> pixels rtile" for px py
  proof -
    let ?i = "(px - x0) div sx" and ?j = "(py - y0) div sy"
    from m have mx: "0 \<le> px - x0" "px - x0 < w" and my: "0 \<le> py - y0" "py - y0 < h"
      by (simp_all add: pixels_def x0_def y0_def w_def h_def)
    have cx: "0 \<le> ?i" "?i < nx" "?i * sx \<le> px - x0" "px - x0 < ?i * sx + wd ?i"
      using scx[OF mx] by simp_all
    have cy: "0 \<le> ?j" "?j < ny" "?j * sy \<le> py - y0" "py - y0 < ?j * sy + ht ?j"
      using scy[OF my] by simp_all
    note I = idx[OF cx(1,2) cy(1,2)]
    have k: "nat (?j * nx + ?i) < nat nx * nat ny" using I by simp
    have "(px, py) \<in> pixels (tiles ! nat (?j * nx + ?i))"
      using cx cy I by (simp add: pixels_def fx[OF k] fy[OF k] fw[OF k] fh[OF k])
    with k show ?thesis by simp
  qed
  have c1: "int (length tiles) = nx * ny" using len nx0 ny0 by simp
  have c2: "tile_x (tiles ! nat (j * nx + i)) = tile_x rtile + i * fst sz \<and>
       tile_y (tiles ! nat (j * nx + i)) = tile_y rtile + j * snd sz \<and>
       tile_w (tiles ! nat (j * nx + i)) = (if i = nx - 1 then tile_w rtile - i * fst sz else fst sz) \<and>
       tile_h (tiles ! nat (j * nx + i)) = (if j = ny - 1 then tile_h rtile - j * snd sz else snd sz)"
    if "0 \<le> i" "i < nx" "0 \<le> j" "j < ny" for i j
  proof -
    note I = idx[OF that]
    have k: "nat (j * nx + i) < nat nx * nat ny" using I by simp
    show ?thesis using I fx[OF k] fy[OF k] fw[OF k] fh[OF k]
      by (simp add: wd_def ht_def x0_def y0_def sx_def sy_def w_def h_def)
  qed
  have c3: "0 < w - (nx - 1) * sx \<and> w - (nx - 1) * sx \<le> sx"
    using wdb[of "nx - 1"] nx0 by (simp add: wd_def)
  have c4: "0 < h - (ny - 1) * sy \<and> h - (ny - 1) * sy \<le> sy"
    using htb[of "ny - 1"] ny0 by (simp add: ht_def)
  have c5: "pixels (tiles ! a) \<inter> pixels (tiles ! b) = {}"
    if "a < length tiles" "b < length tiles" "a \<noteq> b" for a b
  proof (rule ccontr)
    assume "pixels (tiles ! a) \<inter> pixels (tiles ! b) \<noteq> {}"
    then obtain px py where m: "(px, py) \<in> pixels (tiles ! a)" "(px, py) \<in> pixels (tiles ! b)"
      by auto
    have ka: "a < nat nx * nat ny" and kb: "b < nat nx * nat ny" using that len by simp_all
    from inside[OF ka m(1)] inside[OF kb m(2)]
    have "int (a mod nat nx) = int (b mod nat nx)" "int (a div nat nx) = int (b div nat nx)"
      by simp_all
    then have "a = b" using ij[OF ka] ij[OF kb] by metis
    with that(3) show False by simp
  qed
  have c6: "(\<Union>t \<in> set tiles. pixels t) = pixels rtile"
  proof (intro set_eqI iffI)
    fix q assume "q \<in> (\<Union>t \<in> set tiles. pixels t)"
    then obtain t where t: "t \<in> set tiles" "q \<in> pixels t" by auto
    then obtain k where k: "k < length tiles" "tiles ! k = t" by (auto simp: in_set_conv_nth)
    obtain px py where q: "q = (px, py)" by (cases q)
    show "q \<in> pixels rtile" using inside[of k px py] k t len q by simp
  next
    fix q assume m: "q \<in> pixels rtile"
    obtain px py where q: "q = (px, py)" by (cases q)
    from covered[of px py] m q len
    have "nat (((py - y0) div sy) * nx + (px - x0) div sx) < length tiles"
      and "q \<in> pixels (tiles ! nat (((py - y0) div sy) * nx + (px - x0) div sx))" by simp_all
    then show "q \<in> (\<Union>t \<in> set tiles. pixels t)" using nth_mem by blast
  qed
  show ?thesis
    unfolding crx cry
    using c1 c2 c3 c4 c5 c6
    by (simp add: w_def h_def sx_def sy_def)
qed

lemma split_tiles_defined:
  assumes "fst sz \<noteq> 0" "snd sz \<noteq> 0" "stride rtile \<noteq> 0"
    "0 \<le> (tdiv (tile_w rtile - 1) (fst sz) + 1) * (tdiv (tile_h rtile - 1) (snd sz) + 1)"
  shows "\<exists>tiles. split_tiles rtile sz = Inr tiles"
  using assms by (simp add: split_tiles_def Let_def not_less)

theorem split_tiles_partition_witness:
  "0 < tile_w tile_130x130 \<and> 0 < tile_h tile_130x130 \<and> (0::int) < fst (64, 65) \<and> (0::int) < snd (64, 65) \<and>
   (\<exists>tiles. split_tiles tile_130x130 (64, 65) = Inr tiles \<and> length tiles = 6 \<and>
      (\<Union>t \<in> set tiles. pixels t) = pixels tile_130x130)"
proof -
  have p: "0 < tile_w tile_130x130" "0 < tile_h tile_130x130" "(0::int) < fst (64, 65)" "(0::int) < snd (64, 65)"
    by (simp_all add: tile_130x130_def)
  obtain tiles where t: "split_tiles tile_130x130 (64, 65) = Inr tiles"
    using split_tiles_defined[of "(64, 65)" tile_130x130]
    by (auto simp add: tile_130x130_def tdiv_def)
  have c: "ceil_ratio (tile_w tile_130x130) (fst (64, 65)) = 3" "ceil_ratio (tile_h tile_130x130) (snd (64, 65)) = 2"
    by (simp_all add: ceil_ratio_eq tile_130x130_def)
  from split_tiles_partition[OF p t] c
  have "length tiles = 6" "(\<Union>t \<in> set tiles. pixels t) = pixels tile_130x130"
    by simp_all
  with p t show ?thesis by simp
qed

subsection \<open>The memory budget\<close>

lemma render_components:
  "get_invariable_mem_allocated cycles_kernel_types = 1809"
  "get_tile_specific_mem_allocated cycles_kernel_types
     (render_device total_mem\<lparr>per_thread_output_buffer_size := 16\<rparr>) tile_64x64 = 82176"
  "get_scene_specific_mem_allocated cycles_kernel_types
     (render_device total_mem\<lparr>per_thread_output_buffer_size := 16\<rparr>) 9 = 629211136"
  "get_per_thread_memory cycles_kernel_types
     (render_device total_mem\<lparr>per_thread_output_buffer_size := 16\<rparr>) = 8097"
  "total_allocatable_memory (render_device total_mem\<lparr>per_thread_output_buffer_size := 16\<rparr>)
     = total_mem"
  by (simp_all add: get_invariable_mem_allocated_def get_tile_specific_mem_allocated_def
      get_scene_specific_mem_allocated_def get_per_thread_memory_def get_tex_size_def
      get_KernelGlobals_size_def get_shaderdata_soa_size_def get_shader_closure_size_def
      get_shader_data_size_def cycles_kernel_types_def render_device_def tile_64x64_def
      SPLIT_KERNEL_LOCAL_SIZE_X_def SPLIT_KERNEL_LOCAL_SIZE_Y_def Let_def)

text \<open>
  C2, as amended.  Whenever the invariable, the tile-specific and the scene-specific
  allocation together with the safety margin fit into the total allocatable memory,
  and the footprint of a work-item is not 0, \<^verbatim>\<open>get_feasible_global_work_size\<close>
  returns exactly the derived quantity of the specification: the total minus the three
  allocations and the margin, divided by the footprint.  The safety margin is not an
  input: it is the constant \<^verbatim>\<open>DATA_ALLOCATION_MEM_FACTOR\<close> of 5,000,000 bytes.
\<close>

theorem get_feasible_global_work_size_formula:
  assumes fits: "uint (get_invariable_mem_allocated K)
            + uint (get_tile_specific_mem_allocated K dev rtile)
            + uint (get_scene_specific_mem_allocated K dev d_data)
            + DATA_ALLOCATION_MEM_FACTOR \<le> uint (total_allocatable_memory dev)"
      and footprint: "get_per_thread_memory K dev \<noteq> 0"
  shows "\<exists>n. get_feasible_global_work_size K dev rtile d_data = Inr n \<and>
           uint n = feasible_work_items
                      (uint (total_allocatable_memory dev))
                      (uint (get_invariable_mem_allocated K))
                      (uint (get_tile_specific_mem_allocated K dev rtile))
                      (uint (get_scene_specific_mem_allocated K dev d_data))
                      DATA_ALLOCATION_MEM_FACTOR
                      (uint (get_per_thread_memory K dev))"
proof -
  let ?t = "total_allocatable_memory dev" and ?i = "get_invariable_mem_allocated K"
  let ?l = "get_tile_specific_mem_allocated K dev rtile"
  let ?s = "get_scene_specific_mem_allocated K dev d_data"
  let ?p = "get_per_thread_memory K dev"
  let ?a = "uint ?t - uint ?i - uint ?l - uint ?s - DATA_ALLOCATION_MEM_FACTOR"
  define n where "n = (?t - ?i - ?l - ?s - of_int DATA_ALLOCATION_MEM_FACTOR) div ?p"
  have r: "get_feasible_global_work_size K dev rtile d_data = Inr n"
    using footprint by (simp add: get_feasible_global_work_size_def Let_def n_def)
  have sub: "uint (a - b) = (uint a - uint b) mod 2 ^ 64" for a b :: size_t
    by (simp add: uint_word_arith_bintrs take_bit_eq_mod)
  have m: "uint (of_int DATA_ALLOCATION_MEM_FACTOR :: size_t) = DATA_ALLOCATION_MEM_FACTOR"
    by (simp add: DATA_ALLOCATION_MEM_FACTOR_def)
  have "uint (?t - ?i - ?l - ?s - of_int DATA_ALLOCATION_MEM_FACTOR) = ?a mod 2 ^ 64"
    by (simp only: sub m mod_diff_left_eq)
  then have first: "uint n = (?a mod 2 ^ 64) div uint ?p" by (simp only: n_def uint_div)
  have "0 \<le> ?a" using fits by simp
  moreover have "?a < 2 ^ 64"
  proof -
    have "uint ?t < 2 ^ 64" using uint_lt2p[of ?t] by simp
    moreover have "0 \<le> uint ?i" "0 \<le> uint ?l" "0 \<le> uint ?s" by simp_all
    moreover have "0 \<le> DATA_ALLOCATION_MEM_FACTOR" by (simp add: DATA_ALLOCATION_MEM_FACTOR_def)
    ultimately show ?thesis by linarith
  qed
  ultimately have "?a mod 2 ^ 64 = ?a" by (simp only: mod_pos_pos_trivial)
  with first have "uint n = ?a div uint ?p" by simp
  with r show ?thesis by (simp add: feasible_work_items_def)
qed

text \<open>
  On the device that allows 1 GiB, with the scene of 600 MiB and a tile of 64 by 64
  pixels, 54,272 work-items are feasible.  And the components 100,000, 50,000, 200,000
  and 100 of the example of the specification, with the margin of the code, give 6,000
  work-items for a total of 5,950,000 bytes.
\<close>

theorem get_feasible_global_work_size_formula_witness:
  "uint (get_invariable_mem_allocated cycles_kernel_types)
     + uint (get_tile_specific_mem_allocated cycles_kernel_types
               (render_device 1073741824\<lparr>per_thread_output_buffer_size := 16\<rparr>) tile_64x64)
     + uint (get_scene_specific_mem_allocated cycles_kernel_types
               (render_device 1073741824\<lparr>per_thread_output_buffer_size := 16\<rparr>) 9)
     + DATA_ALLOCATION_MEM_FACTOR
     \<le> uint (total_allocatable_memory
               (render_device 1073741824\<lparr>per_thread_output_buffer_size := 16\<rparr>)) \<and>
   get_per_thread_memory cycles_kernel_types
     (render_device 1073741824\<lparr>per_thread_output_buffer_size := 16\<rparr>) \<noteq> 0 \<and>
   get_feasible_global_work_size cycles_kernel_types
     (render_device 1073741824\<lparr>per_thread_output_buffer_size := 16\<rparr>) tile_64x64 9
     = Inr 54272 \<and>
   feasible_work_items 1073741824 1809 82176 629211136 DATA_ALLOCATION_MEM_FACTOR 8097 = 54272 \<and>
   feasible_work_items 5950000 100000 50000 200000 DATA_ALLOCATION_MEM_FACTOR 100 = 6000"
proof -
  let ?dev = "render_device 1073741824\<lparr>per_thread_output_buffer_size := 16\<rparr>"
  have fits: "uint (get_invariable_mem_allocated cycles_kernel_types)
      + uint (get_tile_specific_mem_allocated cycles_kernel_types ?dev tile_64x64)
      + uint (get_scene_specific_mem_allocated cycles_kernel_types ?dev 9)
      + DATA_ALLOCATION_MEM_FACTOR \<le> uint (total_allocatable_memory ?dev)"
    by (simp add: render_components DATA_ALLOCATION_MEM_FACTOR_def)
  have footprint: "get_per_thread_memory cycles_kernel_types ?dev \<noteq> 0"
    by (simp add: render_components)
  from get_feasible_global_work_size_formula[OF fits footprint]
  obtain n where n: "get_feasible_global_work_size cycles_kernel_types ?dev tile_64x64 9 = Inr n"
    and v: "uint n = feasible_work_items 1073741824 1809 82176 629211136
                       DATA_ALLOCATION_MEM_FACTOR 8097"
    by (auto simp add: render_components)
  have q: "feasible_work_items 1073741824 1809 82176 629211136 DATA_ALLOCATION_MEM_FACTOR 8097
             = 54272"
    by (simp add: feasible_work_items_def DATA_ALLOCATION_MEM_FACTOR_def)
  from v q have "uint n = uint (54272 :: size_t)" by simp
  then have "n = 54272" by (simp only: word_uint_eq_iff)
  moreover have "feasible_work_items 5950000 100000 50000 200000 DATA_ALLOCATION_MEM_FACTOR 100
                   = 6000"
    by (simp add: feasible_work_items_def DATA_ALLOCATION_MEM_FACTOR_def)
  ultimately show ?thesis using fits footprint n q by simp
qed

text \<open>
  C2 as stated fails in its example, which takes a safety margin of 50,000 bytes.  The
  margin of the code is 5,000,000 bytes whatever the budget.  On the device that
  allows 1 GiB the code returns 54,272 work-items, where a margin of 50,000 bytes would
  leave room for 54,884; and with the margin of the code the total of 1,000,000 bytes
  of the example does not cover the allocations of the example.
\<close>

theorem example_margin_counterexample:
  "DATA_ALLOCATION_MEM_FACTOR \<noteq> 50000 \<and>
   get_feasible_global_work_size cycles_kernel_types
     (render_device 1073741824\<lparr>per_thread_output_buffer_size := 16\<rparr>) tile_64x64 9
     = Inr 54272 \<and>
   feasible_work_items 1073741824 1809 82176 629211136 50000 8097 = 54884 \<and>
   feasible_work_items 1000000 100000 50000 200000 50000 100 = 6000 \<and>
   feasible_work_items 1000000 100000 50000 200000 DATA_ALLOCATION_MEM_FACTOR 100 < 0"
  by (simp add: get_feasible_global_work_size_def render_components Let_def
        feasible_work_items_def DATA_ALLOCATION_MEM_FACTOR_def)

subsection \<open>The scheduler without enough memory\<close>

text \<open>
  With a budget below one granularity cell the halving loop never returns, whatever the
  tile: the width stays a positive multiple of 64 and the height stays positive, so the
  area stays above the budget.
\<close>

lemma halve_longer_dimension_small_budget:
  assumes "64 \<le> d_w" "1 \<le> d_h" "n < 64"
  shows "halve_longer_dimension d_w d_h n = None"
proof (cases "halve_longer_dimension d_w d_h n")
  case None
  then show ?thesis .
next
  case (Some r)
  have "\<not> (64 \<le> d_w \<and> 1 \<le> d_h \<and> n < 64)"
  proof (rule halve_longer_dimension.raw_induct
      [where P = "\<lambda>a b c r. \<not> (64 \<le> a \<and> 1 \<le> b \<and> c < 64)", OF _ Some])
    fix f :: "int \<Rightarrow> int \<Rightarrow> int \<Rightarrow> int2 option" and a b c :: int and y :: int2
    assume IH: "\<And>a b c y. f a b c = Some y \<Longrightarrow> \<not> (64 \<le> a \<and> 1 \<le> b \<and> c < 64)"
    assume step:
      "(if c < a * b
        then if b \<le> a
          then f ((tdiv (tdiv a 2 - 1) SPLIT_KERNEL_LOCAL_SIZE_X + 1) * SPLIT_KERNEL_LOCAL_SIZE_X) b c
          else f a ((tdiv (tdiv b 2 - 1) SPLIT_KERNEL_LOCAL_SIZE_Y + 1) * SPLIT_KERNEL_LOCAL_SIZE_Y) c
        else Some (a, b)) = Some y"
    show "\<not> (64 \<le> a \<and> 1 \<le> b \<and> c < 64)"
    proof
      assume inv: "64 \<le> a \<and> 1 \<le> b \<and> c < 64"
      then have "64 * 1 \<le> a * b" by (intro mult_mono) simp_all
      with inv have gt: "c < a * b" by simp
      show False
      proof (cases "b \<le> a")
        case True
        have h: "32 \<le> a div 2" using zdiv_mono1[of 64 a 2] inv by simp
        then have "0 \<le> (a div 2 - 1) div 64" by (simp add: pos_imp_zdiv_nonneg_iff)
        then have big: "64 \<le> ((a div 2 - 1) div 64 + 1) * 64" by (simp add: algebra_simps)
        have td: "tdiv (tdiv a 2 - 1) 64 = (a div 2 - 1) div 64"
          using inv h by (simp add: tdiv_nonneg)
        from step gt True
        have "f ((tdiv (tdiv a 2 - 1) 64 + 1) * 64) b c = Some y"
          by (simp add: SPLIT_KERNEL_LOCAL_SIZE_X_def)
        then have "f (((a div 2 - 1) div 64 + 1) * 64) b c = Some y" by (simp only: td)
        from IH[OF this] big inv show False by simp
      next
        case False
        with inv have "64 \<le> b" by simp
        then have h: "32 \<le> b div 2" using zdiv_mono1[of 64 b 2] by simp
        then have "tdiv (tdiv b 2 - 1) 1 = b div 2 - 1" using inv by (simp add: tdiv_nonneg)
        moreover from step gt False
        have "f a ((tdiv (tdiv b 2 - 1) 1 + 1) * 1) c = Some y"
          by (simp add: SPLIT_KERNEL_LOCAL_SIZE_Y_def)
        ultimately have "f a (b div 2) c = Some y" by simp
        from IH[OF this] inv h show False by simp
      qed
    qed
  qed
  with assms show ?thesis by simp
qed

lemma get_split_tile_size_small_budget:
  assumes "0 < tile_w rtile" "0 < tile_h rtile"
    and "fst max_size * snd max_size < 64"
  shows "get_split_tile_size rtile max_size = None"
proof -
  have "0 \<le> (tile_w rtile - 1) div 64" using assms by (simp add: pos_imp_zdiv_nonneg_iff)
  then have "64 \<le> ((tile_w rtile - 1) div 64 + 1) * 64" by (simp add: algebra_simps)
  then have "halve_longer_dimension (((tile_w rtile - 1) div 64 + 1) * 64) (tile_h rtile)
               (fst max_size * snd max_size) = None"
    using assms by (intro halve_longer_dimension_small_budget) simp_all
  then show ?thesis
    using assms
    by (simp add: get_split_tile_size_def Let_def tdiv_nonneg
        SPLIT_KERNEL_LOCAL_SIZE_X_def SPLIT_KERNEL_LOCAL_SIZE_Y_def)
qed

lemma exhausted_feasible:
  "get_feasible_global_work_size cycles_kernel_types
     (render_device 536870912\<lparr>per_thread_output_buffer_size := 16\<rparr>) tile_64x64 9
     = Inr 2278219596592827"
  by (simp add: get_feasible_global_work_size_def render_components Let_def
        DATA_ALLOCATION_MEM_FACTOR_def)

lemma exhausted_max:
  "get_max_render_feasible_tile_size 2278219596592827 = (47730688, 47730698)"
proof -
  have r: "isqrt 2278219596592827 = 47730698" by (rule isqrt_eqI) simp_all
  have u: "unat (2278219596592827 :: size_t) = 2278219596592827" by simp
  have c: "int_of_double 47730698 = 47730698" by (simp add: int_of_double_def)
  have d: "tdiv 47730697 64 = 745792" "tdiv 47730697 1 = 47730697"
    "tdiv 47730698 64 = 745792" "tdiv 47730698 1 = 47730698"
    by (simp_all add: tdiv_def)
  have w: "int32 (47730698 - 1) = 47730697" "int32 (745792 + 1) = 745793"
    "int32 (47730697 + 1) = 47730698" "int32 (745793 * 64) = 47730752"
    "int32 (47730698 * 1) = 47730698" "int32 (47730752 * 47730698) = - 343465344"
    "int32 (745792 * 64) = 47730688"
    by (simp_all add: int32_def)
  have t: "\<not> (of_int (- 343465344) :: size_t) \<le> 2278219596592827" by simp
  show ?thesis
    unfolding get_max_render_feasible_tile_size_def Let_def u r c
      SPLIT_KERNEL_LOCAL_SIZE_X_def SPLIT_KERNEL_LOCAL_SIZE_Y_def w(1) d w(2-7)
    using t by simp
qed

lemma exhausted_check:
  "check_render_feasibility cycles_kernel_types 9 (render_device 536870912) thread_run_start
     tile_64x64 =
   Inr (render_device 536870912\<lparr>per_thread_output_buffer_size := 16\<rparr>,
        \<lparr>initialize_data_and_check_render_feasibility = True, need_to_split_tiles_further = False,
         max_render_feasible_tile_size = (47730688, 47730698),
         feasible_global_work_size = 2278219596592827\<rparr>)"
proof -
  have d: "cl_mem_size (render_device 536870912) (buffer tile_64x64) = 65536"
    by (simp add: render_device_def tile_64x64_def)
  have b: "background (render_device 536870912)" by (simp add: render_device_def)
  have w: "tile_w tile_64x64 = 64" "tile_h tile_64x64 = 64" "tile_size tile_64x64 = (64, 64)"
    by (simp_all add: tile_64x64_def)
  have p: "int32 (fst (47730688 :: int, 47730698 :: int) * snd (47730688 :: int, 47730698 :: int))
             = 896737280"
    by (simp add: int32_def)
  have n: "\<not> need_to_split_tile 64 64 (47730688, 47730698)"
    unfolding need_to_split_tile_def Let_def p
    by (simp add: SPLIT_KERNEL_LOCAL_SIZE_X_def SPLIT_KERNEL_LOCAL_SIZE_Y_def)
  show ?thesis
    by (simp add: check_render_feasibility_def thread_run_start_def Let_def b w d
        exhausted_feasible exhausted_max n)
qed

text \<open>
  C3 fails on the code.  On the device of the AMD platform the scene of 600 MiB alone
  is above the 512 MiB of \<^verbatim>\<open>total_allocatable_memory\<close>, so the derived quantity of
  the specification is negative.  The count of the code does not come out as zero or
  negative: the \<^verbatim>\<open>size_t\<close> subtraction wraps around and the count is
  2,278,219,596,592,827.  The scheduler then sees a feasible size of 47730688 by
  47730698, whose product is 896,737,280 as an \<^verbatim>\<open>int\<close>, does not split, reports
  nothing, and hands the whole tile of 64 by 64 pixels to \<^verbatim>\<open>path_trace\<close> with the
  tile's own size as the feasible size.  The 4096 work-items of the tile take
  33,165,312 bytes.
\<close>

theorem insufficient_memory_dispatched_unsplit:
  "uint (total_allocatable_memory (render_device 536870912))
     < uint (get_invariable_mem_allocated cycles_kernel_types)
       + uint (get_tile_specific_mem_allocated cycles_kernel_types
                 (render_device 536870912\<lparr>per_thread_output_buffer_size := 16\<rparr>) tile_64x64)
       + uint (get_scene_specific_mem_allocated cycles_kernel_types
                 (render_device 536870912\<lparr>per_thread_output_buffer_size := 16\<rparr>) 9)
       + DATA_ALLOCATION_MEM_FACTOR \<and>
   feasible_work_items 536870912 1809 82176 629211136 DATA_ALLOCATION_MEM_FACTOR 8097 < 0 \<and>
   get_feasible_global_work_size cycles_kernel_types
     (render_device 536870912\<lparr>per_thread_output_buffer_size := 16\<rparr>) tile_64x64 9
     = Inr 2278219596592827 \<and>
   thread_run_tile cycles_kernel_types 9 (render_device 536870912) thread_run_start tile_64x64 =
     Some (Inr (render_device 536870912\<lparr>per_thread_output_buffer_size := 16\<rparr>,
        \<lparr>initialize_data_and_check_render_feasibility = True, need_to_split_tiles_further = False,
         max_render_feasible_tile_size = (64, 64),
         feasible_global_work_size = 2278219596592827\<rparr>,
        [(tile_64x64\<lparr>buffer_rng_state_stride := 64\<rparr>, (64, 64))])) \<and>
   64 * 64 * uint (get_per_thread_memory cycles_kernel_types
                     (render_device 536870912\<lparr>per_thread_output_buffer_size := 16\<rparr>))
     = 33165312"
proof -
  have t: "tile_64x64\<lparr>buffer_offset_x := 0, buffer_offset_y := 0, rng_state_offset_x := 0,
             rng_state_offset_y := 0\<rparr> = tile_64x64"
    by (simp add: tile_64x64_def)
  have w: "tile_size tile_64x64 = (64, 64)" "stride tile_64x64 = 64"
    by (simp_all add: tile_64x64_def)
  have run: "thread_run_tile cycles_kernel_types 9 (render_device 536870912) thread_run_start
       tile_64x64 =
     Some (Inr (render_device 536870912\<lparr>per_thread_output_buffer_size := 16\<rparr>,
        \<lparr>initialize_data_and_check_render_feasibility = True, need_to_split_tiles_further = False,
         max_render_feasible_tile_size = (64, 64),
         feasible_global_work_size = 2278219596592827\<rparr>,
        [(tile_64x64\<lparr>buffer_rng_state_stride := 64\<rparr>, (64, 64))]))"
    using exhausted_check
    by (simp add: thread_run_tile_def Let_def t w tdiv_def
        SPLIT_KERNEL_LOCAL_SIZE_X_def SPLIT_KERNEL_LOCAL_SIZE_Y_def)
  have m: "total_allocatable_memory (render_device 536870912) = 536870912"
    by (simp add: render_device_def)
  have q: "feasible_work_items 536870912 1809 82176 629211136 DATA_ALLOCATION_MEM_FACTOR 8097 < 0"
    by (simp add: feasible_work_items_def DATA_ALLOCATION_MEM_FACTOR_def)
  show ?thesis
    using run exhausted_feasible q
    by (simp add: render_components m DATA_ALLOCATION_MEM_FACTOR_def)
qed

subsection \<open>The wavefront pipeline\<close>

lemma path_iteration_loop_result:
  assumes "path_iteration_loop K gs ray_states st = Some (Inr st')"
  defines "k \<equiv> interventions K gs ray_states"
  shows "k < length ray_states \<and>
         \<not> activeRaysAvailable K (unat (fst gs * snd gs)) (ray_states ! k) \<and>
         unat (fst gs * snd gs) \<le> length (ray_states ! k) \<and>
         take (unat (fst gs * snd gs)) (hostRayStateArray (device st'))
           = take (unat (fst gs * snd gs)) (ray_states ! k) \<and>
         length (hostRayStateArray (device st')) = length (hostRayStateArray (device st)) \<and>
         numHostIntervention st' = numHostIntervention st + of_nat k \<and>
         numNextPathIterTimes st' = numNextPathIterTimes st + of_nat k * of_int PATH_ITER_INC_FACTOR \<and>
         PathIteration_times (device st') =
           (if k = 0 then PathIteration_times (device st) else of_int PATH_ITER_INC_FACTOR) \<and>
         first_tile (device st') = first_tile (device st) \<and>
         commands st' = commands st @ block gs (unat (PathIteration_times (device st)))
                          @ concat (replicate k (block gs (nat PATH_ITER_INC_FACTOR)))"
  using assms(1) unfolding k_def
proof (induction ray_states arbitrary: st)
  case Nil
  then show ?case by simp
next
  case (Cons ray_state later)
  let ?n = "unat (fst gs * snd gs)"
  let ?st1 = "st\<lparr>commands := commands st @ block gs (unat (PathIteration_times (device st)))\<rparr>"
  let ?st2 = "?st1\<lparr>device := (device st)\<lparr>hostRayStateArray :=
                 take ?n ray_state @ drop ?n (hostRayStateArray (device st))\<rparr>\<rparr>"
  from Cons.prems have inb: "?n \<le> length ray_state" "?n \<le> length (hostRayStateArray (device st))"
    by (auto simp add: Let_def split: if_splits)
  have tk: "take ?n (take ?n ray_state @ drop ?n (hostRayStateArray (device st))) = take ?n ray_state"
    using inb by simp
  have act: "activeRaysAvailable K ?n (take ?n ray_state @ drop ?n (hostRayStateArray (device st)))
               = activeRaysAvailable K ?n ray_state"
    by (simp only: activeRaysAvailable_def tk)
  have len: "length (take ?n ray_state @ drop ?n (hostRayStateArray (device st)))
               = length (hostRayStateArray (device st))"
    using inb by simp
  show ?case
  proof (cases "activeRaysAvailable K ?n ray_state")
    case False
    with Cons.prems inb act have "st' = ?st2"
      by (simp add: Let_def block_def)
    then show ?thesis using False inb tk len by (simp add: interventions_def)
  next
    case True
    let ?st3 = "?st2\<lparr>numHostIntervention := numHostIntervention st + 1,
                 device := (device ?st2)\<lparr>PathIteration_times := of_int PATH_ITER_INC_FACTOR\<rparr>,
                 numNextPathIterTimes := numNextPathIterTimes st + of_int PATH_ITER_INC_FACTOR\<rparr>"
    from Cons.prems inb act True have rec: "path_iteration_loop K gs later ?st3 = Some (Inr st')"
      by (simp add: Let_def block_def)
    note IH = Cons.IH[OF rec]
    have k: "interventions K gs (ray_state # later) = Suc (interventions K gs later)"
      using True by (simp add: interventions_def)
    have b8: "unat (of_int PATH_ITER_INC_FACTOR :: uint) = nat PATH_ITER_INC_FACTOR"
      by (simp add: PATH_ITER_INC_FACTOR_def)
    show ?thesis
      unfolding k
      using IH len
      by (simp add: b8 algebra_simps)
  qed
qed

lemma path_iteration_loop_returns:
  assumes "\<exists>ray_state \<in> set ray_states. \<not> activeRaysAvailable K (unat (fst gs * snd gs)) ray_state"
    and "\<forall>ray_state \<in> set ray_states. unat (fst gs * snd gs) \<le> length ray_state"
    and "unat (fst gs * snd gs) \<le> length (hostRayStateArray (device st))"
  shows "\<exists>st'. path_iteration_loop K gs ray_states st = Some (Inr st')"
  using assms
proof (induction ray_states arbitrary: st)
  case Nil
  then show ?case by simp
next
  case (Cons ray_state later)
  let ?n = "unat (fst gs * snd gs)"
  have inb: "?n \<le> length ray_state" "?n \<le> length (hostRayStateArray (device st))"
    using Cons.prems by simp_all
  have tk: "take ?n (take ?n ray_state @ drop ?n (hostRayStateArray (device st))) = take ?n ray_state"
    using inb by simp
  have act: "activeRaysAvailable K ?n (take ?n ray_state @ drop ?n (hostRayStateArray (device st)))
               = activeRaysAvailable K ?n ray_state"
    by (simp only: activeRaysAvailable_def tk)
  show ?case
  proof (cases "activeRaysAvailable K ?n ray_state")
    case False
    then show ?thesis using inb act by (simp add: Let_def)
  next
    case True
    with Cons.prems have ex: "\<exists>r \<in> set later. \<not> activeRaysAvailable K ?n r" by auto
    have al: "\<forall>r \<in> set later. ?n \<le> length r" using Cons.prems by simp
    show ?thesis
      using True inb act
      by (simp add: Let_def) (rule Cons.IH[OF ex al], simp add: inb)
  qed
qed

lemma interventions_nth:
  assumes "j < interventions K gs ray_states"
  shows "activeRaysAvailable K (unat (fst gs * snd gs)) (ray_states ! j)"
proof -
  let ?P = "activeRaysAvailable K (unat (fst gs * snd gs))"
  from assms have j: "j < length (takeWhile ?P ray_states)" by (simp add: interventions_def)
  then have "takeWhile ?P ray_states ! j \<in> set (takeWhile ?P ray_states)" by (rule nth_mem)
  then have "?P (takeWhile ?P ray_states ! j)" by (rule set_takeWhileD[THEN conjunct2])
  then show ?thesis using takeWhile_nth[OF j] by simp
qed

lemma path_trace_result:
  assumes "path_trace K ndebug ray_states (dev, queue) rtile max_size = Some (Inr (dev', queue'))"
  shows "\<exists>st st'. path_iteration_loop K (global_size rtile) ray_states st = Some (Inr st') \<and>
           PathIteration_times (device st) = PathIteration_times dev \<and>
           numHostIntervention st = 0 \<and>
           numNextPathIterTimes st = PathIteration_times dev \<and>
           commands st = queue @ [clEnqueueNDRangeKernel DataInit (global_size rtile) local_size] \<and>
           hostRayStateArray dev' = hostRayStateArray (device st') \<and>
           PathIteration_times dev' =
             (if numHostIntervention st' = 0
              then (if numNextPathIterTimes st' - of_int PATH_ITER_INC_FACTOR \<le> 0
                    then of_int PATH_ITER_INC_FACTOR
                    else numNextPathIterTimes st' - of_int PATH_ITER_INC_FACTOR)
              else numNextPathIterTimes st') \<and>
           \<not> first_tile dev' \<and>
           (\<exists>g. queue' = commands st' @ [clEnqueueNDRangeKernel SumAllRadiance g (16, 16)])"
proof -
  let ?dev = "if first_tile dev
              then dev\<lparr>hostRayStateArray :=
                     replicate (unat ((of_int (fst max_size * snd max_size) :: size_t) * hostRayState_size dev)) 0\<rparr>
              else dev"
  let ?st = "\<lparr>device = ?dev,
              commands = queue @ [clEnqueueNDRangeKernel DataInit (global_size rtile) local_size],
              numHostIntervention = 0, numNextPathIterTimes = PathIteration_times ?dev\<rparr>"
  from assms obtain st' where
    loop: "path_iteration_loop K (global_size rtile) ray_states ?st = Some (Inr st')"
    and res: "dev' = (if numHostIntervention st' = 0
                 then (device st')\<lparr>PathIteration_times :=
                        (if numNextPathIterTimes st' - of_int PATH_ITER_INC_FACTOR \<le> 0
                         then of_int PATH_ITER_INC_FACTOR
                         else numNextPathIterTimes st' - of_int PATH_ITER_INC_FACTOR)\<rparr>
                 else (device st')\<lparr>PathIteration_times := numNextPathIterTimes st'\<rparr>)\<lparr>first_tile := False\<rparr>"
    and q: "\<exists>g. queue' = commands st' @ [clEnqueueNDRangeKernel SumAllRadiance g (16, 16)]"
    by (auto simp add: path_trace_def Let_def split: if_splits option.splits sum.splits)
  have "PathIteration_times ?dev = PathIteration_times dev" by simp
  then show ?thesis using loop res q
    by (intro exI[of _ ?st] exI[of _ st']) (simp split: if_splits)
qed

text \<open>
  C5.  When \<^verbatim>\<open>path_trace\<close> returns, the \<^verbatim>\<open>SumAllRadiance\<close> dispatch is the last
  command it has enqueued, and it directly follows the one read after which every
  polled entry of the host copy of the ray-state array, that is each of the first
  \<^verbatim>\<open>global_size[0] * global_size[1]\<close> entries, equals \<^verbatim>\<open>RAY_INACTIVE\<close>.  Every read
  before it found an entry that is not inactive and was followed by another block of
  path iterations.
\<close>

theorem path_trace_finalizes_after_inactive_poll:
  assumes "path_trace K ndebug ray_states (dev, queue) rtile max_size = Some (Inr (dev', queue'))"
  shows "(\<forall>i < unat (fst (global_size rtile) * snd (global_size rtile)).
            sint (hostRayStateArray dev' ! i) = RAY_INACTIVE K) \<and>
         \<not> activeRaysAvailable K (unat (fst (global_size rtile) * snd (global_size rtile)))
             (hostRayStateArray dev') \<and>
         interventions K (global_size rtile) ray_states < length ray_states \<and>
         (\<forall>j < interventions K (global_size rtile) ray_states.
            activeRaysAvailable K (unat (fst (global_size rtile) * snd (global_size rtile)))
              (ray_states ! j)) \<and>
         \<not> activeRaysAvailable K (unat (fst (global_size rtile) * snd (global_size rtile)))
             (ray_states ! interventions K (global_size rtile) ray_states) \<and>
         (\<exists>g. queue' =
            queue @ [clEnqueueNDRangeKernel DataInit (global_size rtile) local_size]
              @ block (global_size rtile) (unat (PathIteration_times dev))
              @ concat (replicate (interventions K (global_size rtile) ray_states)
                          (block (global_size rtile) (nat PATH_ITER_INC_FACTOR)))
              @ [clEnqueueNDRangeKernel SumAllRadiance g (16, 16)])"
proof -
  let ?gs = "global_size rtile"
  let ?n = "unat (fst ?gs * snd ?gs)"
  let ?k = "interventions K ?gs ray_states"
  from path_trace_result[OF assms] obtain st st' g where
    loop: "path_iteration_loop K ?gs ray_states st = Some (Inr st')"
    and st: "PathIteration_times (device st) = PathIteration_times dev"
      "commands st = queue @ [clEnqueueNDRangeKernel DataInit ?gs local_size]"
    and host: "hostRayStateArray dev' = hostRayStateArray (device st')"
    and q: "queue' = commands st' @ [clEnqueueNDRangeKernel SumAllRadiance g (16, 16)]"
    by blast
  note R = path_iteration_loop_result[OF loop]
  have k: "?k < length ray_states" using R by simp
  have last: "\<not> activeRaysAvailable K ?n (ray_states ! ?k)" using R by simp
  have tk: "take ?n (hostRayStateArray dev') = take ?n (ray_states ! ?k)" using R host by simp
  have n: "?n \<le> length (ray_states ! ?k)" using R by simp
  have "activeRaysAvailable K ?n (hostRayStateArray dev')
          = activeRaysAvailable K ?n (ray_states ! ?k)"
    by (simp only: activeRaysAvailable_def tk)
  with last have inactive: "\<not> activeRaysAvailable K ?n (hostRayStateArray dev')" by simp
  have all: "sint (hostRayStateArray dev' ! i) = RAY_INACTIVE K" if "i < ?n" for i
  proof -
    have "length (take ?n (hostRayStateArray dev')) = ?n" using n by (simp only: tk) simp
    then have i: "i < length (take ?n (hostRayStateArray dev'))" using that by simp
    then have "take ?n (hostRayStateArray dev') ! i \<in> set (take ?n (hostRayStateArray dev'))"
      by (rule nth_mem)
    with inactive have "sint (take ?n (hostRayStateArray dev') ! i) = RAY_INACTIVE K"
      by (auto simp add: activeRaysAvailable_def list_ex_iff)
    then show ?thesis using that by simp
  qed
  have cmds: "queue' =
      queue @ [clEnqueueNDRangeKernel DataInit ?gs local_size]
        @ block ?gs (unat (PathIteration_times dev))
        @ concat (replicate ?k (block ?gs (nat PATH_ITER_INC_FACTOR)))
        @ [clEnqueueNDRangeKernel SumAllRadiance g (16, 16)]"
    using R q st by simp
  show ?thesis using all inactive k last interventions_nth cmds by blast
qed

lemma small_global_size: "global_size tile_1x1 = (64, 1)"
  by (simp add: global_size_def local_size_def tile_1x1_def Let_def
        SPLIT_KERNEL_LOCAL_SIZE_X_def SPLIT_KERNEL_LOCAL_SIZE_Y_def)

lemma small_path_trace_runs:
  "\<exists>dev' queue'. path_trace cycles_kernel_types ndebug [replicate 64 0, replicate 64 1]
      (small_device, []) tile_1x1 (64, 1) = Some (Inr (dev', queue'))"
proof -
  note gs = small_global_size
  have d: "first_tile small_device" "hostRayState_size small_device = 1" "rayState_size small_device = 1"
    by (simp_all add: small_device_def)
  let ?st = "\<lparr>device = small_device\<lparr>hostRayStateArray := replicate 64 0\<rparr>,
              commands = [clEnqueueNDRangeKernel DataInit (64, 1) local_size],
              numHostIntervention = 0,
              numNextPathIterTimes = PathIteration_times small_device\<rparr>"
  have "\<exists>st'. path_iteration_loop cycles_kernel_types (64, 1)
           [replicate 64 0, replicate 64 1] ?st = Some (Inr st')"
    by (rule path_iteration_loop_returns)
       (simp_all add: activeRaysAvailable_def list_ex_iff cycles_kernel_types_def)
  then obtain st' where "path_iteration_loop cycles_kernel_types (64, 1)
           [replicate 64 0, replicate 64 1] ?st = Some (Inr st')" by blast
  then show ?thesis
    by (simp add: path_trace_def Let_def gs d trem_def tdiv_def
        SPLIT_KERNEL_LOCAL_SIZE_X_def SPLIT_KERNEL_LOCAL_SIZE_Y_def)
qed

lemma small_interventions:
  "interventions cycles_kernel_types (64, 1) [replicate 64 0, replicate 64 1] = 1"
  by (simp add: interventions_def activeRaysAvailable_def list_ex_iff cycles_kernel_types_def)

theorem path_trace_finalizes_after_inactive_poll_witness:
  "\<exists>dev' queue'. path_trace cycles_kernel_types False [replicate 64 0, replicate 64 1]
      (small_device, []) tile_1x1 (64, 1) = Some (Inr (dev', queue')) \<and>
     sint (hostRayStateArray dev' ! 0) = RAY_INACTIVE cycles_kernel_types \<and>
     (\<exists>g. queue' =
        [clEnqueueNDRangeKernel DataInit (64, 1) local_size]
          @ block (64, 1) 8 @ block (64, 1) 8
          @ [clEnqueueNDRangeKernel SumAllRadiance g (16, 16)])"
proof -
  obtain dev' queue' where r: "path_trace cycles_kernel_types False [replicate 64 0, replicate 64 1]
      (small_device, []) tile_1x1 (64, 1) = Some (Inr (dev', queue'))"
    using small_path_trace_runs by blast
  have p: "PathIteration_times small_device = 8" by (simp add: small_device_def)
  from path_trace_finalizes_after_inactive_poll[OF r]
  have "sint (hostRayStateArray dev' ! 0) = RAY_INACTIVE cycles_kernel_types"
    and "\<exists>g. queue' =
        [clEnqueueNDRangeKernel DataInit (64, 1) local_size]
          @ block (64, 1) 8 @ block (64, 1) 8
          @ [clEnqueueNDRangeKernel SumAllRadiance g (16, 16)]"
    unfolding small_global_size small_interventions
    by (simp_all add: p PATH_ITER_INC_FACTOR_def)
  with r show ?thesis by blast
qed

text \<open>
  C6.  Let the budget \<^verbatim>\<open>PathIteration_times\<close> at the start of a tile be a positive
  multiple of the increment \<^verbatim>\<open>PATH_ITER_INC_FACTOR\<close>, as the constructor sets it and as
  every \<^verbatim>\<open>path_trace\<close> leaves it, and let the budget plus one increment per
  intervention stay below \<open>2 ^ 32\<close>.  When \<^verbatim>\<open>path_trace\<close> returns, the budget for the
  next tile is, with no intervention, the starting budget less one increment but not
  less than the increment, and otherwise the starting budget plus one increment per
  intervention; it is again a positive multiple of the increment.
\<close>

theorem path_trace_next_budget:
  assumes ret: "path_trace K ndebug ray_states (dev, queue) rtile max_size = Some (Inr (dev', queue'))"
    and mult: "nat PATH_ITER_INC_FACTOR dvd unat (PathIteration_times dev)"
    and pos: "nat PATH_ITER_INC_FACTOR \<le> unat (PathIteration_times dev)"
    and fit: "unat (PathIteration_times dev)
                + nat PATH_ITER_INC_FACTOR * interventions K (global_size rtile) ray_states < 2 ^ 32"
  shows "unat (PathIteration_times dev') =
           (if interventions K (global_size rtile) ray_states = 0
            then max (unat (PathIteration_times dev) - nat PATH_ITER_INC_FACTOR) (nat PATH_ITER_INC_FACTOR)
            else unat (PathIteration_times dev)
                   + nat PATH_ITER_INC_FACTOR * interventions K (global_size rtile) ray_states) \<and>
         nat PATH_ITER_INC_FACTOR dvd unat (PathIteration_times dev') \<and>
         nat PATH_ITER_INC_FACTOR \<le> unat (PathIteration_times dev')"
proof -
  let ?k = "interventions K (global_size rtile) ray_states"
  let ?b = "PathIteration_times dev"
  from path_trace_result[OF ret] obtain st st' where
    loop: "path_iteration_loop K (global_size rtile) ray_states st = Some (Inr st')"
    and st: "numHostIntervention st = 0" "numNextPathIterTimes st = ?b"
    and res: "PathIteration_times dev' =
             (if numHostIntervention st' = 0
              then (if numNextPathIterTimes st' - of_int PATH_ITER_INC_FACTOR \<le> 0
                    then of_int PATH_ITER_INC_FACTOR
                    else numNextPathIterTimes st' - of_int PATH_ITER_INC_FACTOR)
              else numNextPathIterTimes st')"
    by blast
  note R = path_iteration_loop_result[OF loop]
  have inc: "nat PATH_ITER_INC_FACTOR = 8" "(of_int PATH_ITER_INC_FACTOR :: uint) = 8"
    by (simp_all add: PATH_ITER_INC_FACTOR_def)
  have nhi: "numHostIntervention st' = of_nat ?k" using R st by simp
  have nnp: "numNextPathIterTimes st' = ?b + of_nat (8 * ?k)" using R st inc by simp
  have k32: "8 * ?k < 2 ^ 32" using fit inc by simp
  have uk: "unat (of_nat (8 * ?k) :: uint) = 8 * ?k"
  proof -
    have "unat (of_nat (8 * ?k) :: uint) = (8 * ?k) mod 2 ^ LENGTH(32)" by (rule unat_of_nat)
    also have "\<dots> = 8 * ?k" using k32 by simp
    finally show ?thesis .
  qed
  have zero: "((of_nat ?k :: uint) = 0) = (?k = 0)"
  proof -
    have "?k < 2 ^ 32" using k32 by simp
    moreover have "unat (of_nat ?k :: uint) = ?k mod 2 ^ LENGTH(32)" by (rule unat_of_nat)
    ultimately have "unat (of_nat ?k :: uint) = ?k" by simp
    then show ?thesis by (metis unat_eq_0)
  qed
  have sum: "unat (?b + of_nat (8 * ?k)) = unat ?b + 8 * ?k"
  proof -
    have "unat ?b + unat (of_nat (8 * ?k) :: uint) < 2 ^ LENGTH(32)"
      using fit inc uk by simp
    then have "unat (?b + of_nat (8 * ?k)) = unat ?b + unat (of_nat (8 * ?k) :: uint)"
      by (simp only: unat_add_lem)
    then show ?thesis by (simp only: uk)
  qed
  show ?thesis
  proof (cases "?k = 0")
    case True
    then have next': "PathIteration_times dev' = (if ?b - 8 \<le> 0 then 8 else ?b - 8)"
      using res nhi nnp inc by simp
    have b8: "8 \<le> unat ?b" "8 dvd unat ?b" using pos mult inc by simp_all
    show ?thesis
    proof (cases "?b = 8")
      case True
      then show ?thesis using next' \<open>?k = 0\<close> by (simp add: inc)
    next
      case False
      have "unat ?b \<noteq> 8"
      proof
        assume "unat ?b = 8"
        then have "(of_nat (unat ?b) :: uint) = of_nat 8" by (simp only:)
        then have "?b = 8" by simp
        with False show False by simp
      qed
      with b8 have b16: "16 \<le> unat ?b" by (elim dvdE) auto
      have le: "(8 :: uint) \<le> ?b" using b8(1) by (simp add: word_le_nat_alt)
      have sub: "unat (?b - 8) = unat ?b - 8" using le by (simp add: unat_sub)
      have "?b - 8 \<noteq> 0" using False by simp
      then have "\<not> ?b - 8 \<le> 0" by simp
      then have "PathIteration_times dev' = ?b - 8" using next' by simp
      then have u: "unat (PathIteration_times dev') = unat ?b - 8" using sub by simp
      have m: "max (unat ?b - 8) 8 = unat ?b - 8" using b16 by simp
      have d: "8 dvd unat ?b - 8" using b8 by (simp add: dvd_diff_nat)
      have l: "8 \<le> unat ?b - 8" using b16 by simp
      show ?thesis
        using u m d l \<open>?k = 0\<close> by (simp only: inc) simp
    qed
  next
    case False
    then have "PathIteration_times dev' = ?b + of_nat (8 * ?k)"
      using res nnp zero nhi by simp
    then show ?thesis
      using sum False pos mult by (simp add: inc)
  qed
qed

theorem path_trace_next_budget_witness:
  "\<exists>dev' queue'. path_trace cycles_kernel_types False [replicate 64 0, replicate 64 1]
      (small_device, []) tile_1x1 (64, 1) = Some (Inr (dev', queue')) \<and>
     nat PATH_ITER_INC_FACTOR dvd unat (PathIteration_times small_device) \<and>
     nat PATH_ITER_INC_FACTOR \<le> unat (PathIteration_times small_device) \<and>
     interventions cycles_kernel_types (global_size tile_1x1) [replicate 64 0, replicate 64 1] = 1 \<and>
     unat (PathIteration_times dev') = 16"
proof -
  obtain dev' queue' where r: "path_trace cycles_kernel_types False [replicate 64 0, replicate 64 1]
      (small_device, []) tile_1x1 (64, 1) = Some (Inr (dev', queue'))"
    using small_path_trace_runs by blast
  have p: "PathIteration_times small_device = 8" by (simp add: small_device_def)
  have h: "nat PATH_ITER_INC_FACTOR dvd unat (PathIteration_times small_device)"
    "nat PATH_ITER_INC_FACTOR \<le> unat (PathIteration_times small_device)"
    "unat (PathIteration_times small_device)
       + nat PATH_ITER_INC_FACTOR
           * interventions cycles_kernel_types (global_size tile_1x1) [replicate 64 0, replicate 64 1]
       < 2 ^ 32"
    by (simp_all add: p PATH_ITER_INC_FACTOR_def small_global_size small_interventions)
  from path_trace_next_budget[OF r h]
  have "unat (PathIteration_times dev') = 16"
    by (simp add: p PATH_ITER_INC_FACTOR_def small_global_size small_interventions)
  with r h show ?thesis by (auto simp add: small_global_size small_interventions)
qed

text \<open>
  C7, as amended.  Within a tile, each poll that finds a ray-state entry that is not
  inactive adds one to the intervention counter, sets the budget of the next block of
  pipeline rounds to the fixed increment \<^verbatim>\<open>PATH_ITER_INC_FACTOR\<close>, and adds one
  increment to the budget kept for the next tile.  So the first block of a tile runs
  the tile's starting budget of rounds and every later block runs exactly one
  increment of rounds.
\<close>

theorem path_iteration_loop_interventions:
  assumes "path_iteration_loop K gs ray_states st = Some (Inr st')"
  shows "numHostIntervention st' = numHostIntervention st + of_nat (interventions K gs ray_states) \<and>
         numNextPathIterTimes st' =
           numNextPathIterTimes st + of_nat (interventions K gs ray_states) * of_int PATH_ITER_INC_FACTOR \<and>
         (0 < interventions K gs ray_states \<longrightarrow>
            PathIteration_times (device st') = of_int PATH_ITER_INC_FACTOR) \<and>
         commands st' =
           commands st @ block gs (unat (PathIteration_times (device st)))
             @ concat (replicate (interventions K gs ray_states) (block gs (nat PATH_ITER_INC_FACTOR)))"
proof -
  note R = path_iteration_loop_result[OF assms]
  have "0 < interventions K gs ray_states \<Longrightarrow>
        PathIteration_times (device st') = of_int PATH_ITER_INC_FACTOR"
    using R by simp
  then show ?thesis using R by blast
qed

lemma loop_start_returns:
  "\<exists>st'. path_iteration_loop cycles_kernel_types (64, 1) [replicate 64 0, replicate 64 1]
           (loop_start budget) = Some (Inr st')"
  by (rule path_iteration_loop_returns)
     (simp_all add: activeRaysAvailable_def list_ex_iff cycles_kernel_types_def loop_start_def)

theorem path_iteration_loop_interventions_witness:
  "\<exists>st'. path_iteration_loop cycles_kernel_types (64, 1) [replicate 64 0, replicate 64 1]
           (loop_start 8) = Some (Inr st') \<and>
     numHostIntervention st' = 1 \<and> numNextPathIterTimes st' = 16 \<and>
     PathIteration_times (device st') = 8 \<and>
     commands st' = block (64, 1) 8 @ block (64, 1) 8"
proof -
  obtain st' where r: "path_iteration_loop cycles_kernel_types (64, 1)
      [replicate 64 0, replicate 64 1] (loop_start 8) = Some (Inr st')"
    using loop_start_returns by blast
  from path_iteration_loop_interventions[OF r]
  have "numHostIntervention st' = 1 \<and> numNextPathIterTimes st' = 16 \<and>
     PathIteration_times (device st') = 8 \<and>
     commands st' = block (64, 1) 8 @ block (64, 1) 8"
    unfolding small_interventions
    by (simp add: loop_start_def PATH_ITER_INC_FACTOR_def)
  with r show ?thesis by blast
qed

text \<open>
  C7 as stated fails on the code.  A tile that starts with a budget of 24 rounds (the
  budget after a tile with two interventions) and whose first poll finds active rays:
  the intervention is counted, but the next block runs 8 rounds, fewer than the 24 of
  the block before, and the budget of the running tile is 8 and not 32.  What has grown
  to 32 is the budget kept for the next tile.
\<close>

theorem next_block_budget_counterexample:
  "\<exists>st'. path_iteration_loop cycles_kernel_types (64, 1) [replicate 64 0, replicate 64 1]
           (loop_start 24) = Some (Inr st') \<and>
     numHostIntervention st' = 1 \<and>
     commands st' = block (64, 1) 24 @ block (64, 1) 8 \<and>
     PathIteration_times (device st') = 8 \<and>
     PathIteration_times (device st') \<noteq> 24 + 8 \<and>
     numNextPathIterTimes st' = 32"
proof -
  obtain st' where r: "path_iteration_loop cycles_kernel_types (64, 1)
      [replicate 64 0, replicate 64 1] (loop_start 24) = Some (Inr st')"
    using loop_start_returns by blast
  from path_iteration_loop_result[OF r]
  have "numHostIntervention st' = 1 \<and>
     commands st' = block (64, 1) 24 @ block (64, 1) 8 \<and>
     PathIteration_times (device st') = 8 \<and>
     PathIteration_times (device st') \<noteq> 24 + 8 \<and>
     numNextPathIterTimes st' = 32"
    unfolding small_interventions
    by (simp add: loop_start_def PATH_ITER_INC_FACTOR_def)
  with r show ?thesis by blast
qed

subsection \<open>The cache\<close>

lemma map_of_slot_update:
  "map_of (slot_update key f c) k = (if k = key then map_option f (map_of c k) else map_of c k)"
  by (induction c) (auto simp add: slot_update_def)

lemma map_of_cache_insert:
  "map_of (cache_insert key c) k =
     (if k = key \<and> map_of c k = None then Some Slot_new else map_of c k)"
  by (auto simp add: cache_insert_def map_add_def split: option.splits)

lemma member_of_Slot_new: "member_of m Slot_new = NULL"
  by (cases m) (simp_all add: Slot_new_def)

lemma member_of_mutex: "member_of m (s\<lparr>mutex := b\<rparr>) = member_of m s"
  by (cases m) simp_all

lemma member_of_update:
  "member_of m' (member_update m h s) = (if m' = m then h else member_of m' s)"
  by (cases m; cases m') simp_all

lemma get_something_result:
  assumes "get_something ndebug p d m c = Inr (v, c')"
  shows "v = slot_value m p d c \<and> cl_calls c' = cl_calls c \<and>
         (\<forall>m' p' d'. slot_value m' p' d' c' = slot_value m' p' d' c)"
proof -
  define c1 where "c1 = slot_update (p, d) (\<lambda>s. s\<lparr>mutex := True\<rparr>) (cache_insert (p, d) (cache c))"
  have look: "map_of c1 k = (if k = (p, d)
        then Some ((case map_of (cache c) k of None \<Rightarrow> Slot_new | Some s \<Rightarrow> s)\<lparr>mutex := True\<rparr>)
        else map_of (cache c) k)" for k
    by (auto simp add: c1_def map_of_slot_update map_of_cache_insert split: option.splits)
  from assms have c': "c' = c\<lparr>cache := c1\<rparr>"
    and v: "v = member_of m ((case map_of (cache c) (p, d) of None \<Rightarrow> Slot_new | Some s \<Rightarrow> s)\<lparr>mutex := True\<rparr>)"
    by (auto simp add: get_something_def Let_def c1_def[symmetric] look split: if_splits)
  have "slot_value m' p' d' c' = slot_value m' p' d' c" for m' p' d'
    by (auto simp add: slot_value_def c' look member_of_mutex member_of_Slot_new split: option.splits)
  moreover have "v = slot_value m p d c"
    by (auto simp add: v slot_value_def member_of_mutex member_of_Slot_new split: option.splits)
  ultimately show ?thesis by (simp add: c')
qed

lemma get_something_returns:
  assumes "ndebug \<or> p \<noteq> NULL"
  shows "\<exists>c'. get_something ndebug p d m c = Inr (slot_value m p d c, c')"
proof -
  have "map_of (slot_update (p, d) (\<lambda>s. s\<lparr>mutex := True\<rparr>) (cache_insert (p, d) (cache c))) (p, d) \<noteq> None"
    by (simp add: map_of_slot_update map_of_cache_insert)
  then obtain v c' where r: "get_something ndebug p d m c = Inr (v, c')"
    using assms by (cases "get_something ndebug p d m c")
      (auto simp add: get_something_def Let_def split: option.splits if_splits)
  from get_something_result[OF r] r show ?thesis by auto
qed

lemma store_something_result:
  assumes "store_something ndebug p d h m c = Inr c'"
  shows "(\<not> ndebug \<longrightarrow> p \<noteq> NULL \<and> h \<noteq> NULL \<and> slot_value m p d c = NULL) \<and>
         cl_calls c' = cl_calls c \<and>
         (\<forall>m' p' d'. slot_value m' p' d' c' =
            (if m' = m \<and> p' = p \<and> d' = d then h else slot_value m' p' d' c))"
proof -
  from assms obtain slot where slot: "map_of (cache c) (p, d) = Some slot"
    and chk: "\<not> ndebug \<longrightarrow> p \<noteq> NULL \<and> h \<noteq> NULL \<and> member_of m slot = NULL"
    and c': "c' = c\<lparr>cache := slot_update (p, d) (member_update m h) (cache c)\<rparr>"
    by (auto simp add: store_something_def split: if_splits option.splits)
  have "slot_value m' p' d' c' = (if m' = m \<and> p' = p \<and> d' = d then h else slot_value m' p' d' c)"
    for m' p' d'
    by (auto simp add: slot_value_def c' map_of_slot_update slot member_of_update split: option.splits)
  then show ?thesis using chk slot by (simp add: slot_value_def c')
qed

lemma get_context_result:
  assumes "get_context ndebug p d c = Inr (v, c')"
  shows "v = slot_value Member_context p d c \<and>
         cl_calls c' = cl_calls c @ (if v = NULL then [] else [clRetainContext v]) \<and>
         (\<forall>m' p' d'. slot_value m' p' d' c' = slot_value m' p' d' c)"
proof -
  from assms obtain c0 where g: "get_something ndebug p d Member_context c = Inr (v, c0)"
    and c': "c' = (if v = NULL then c0 else c0\<lparr>cl_calls := cl_calls c0 @ [clRetainContext v]\<rparr>)"
    by (auto simp add: get_context_def split: sum.splits if_splits)
  from get_something_result[OF g] show ?thesis
    by (auto simp add: c' slot_value_def)
qed

lemma get_program_result:
  assumes "get_program ndebug p d n c = Inr (v, c')"
  shows "v = slot_value (case n of OCL_DEV_BASE_PROGRAM \<Rightarrow> Member_ocl_dev_base_program
                          | OCL_DEV_MEGAKERNEL_PROGRAM \<Rightarrow> Member_ocl_dev_megakernel_program) p d c \<and>
         cl_calls c' = cl_calls c @ (if v = NULL then [] else [clRetainProgram v]) \<and>
         (\<forall>m' p' d'. slot_value m' p' d' c' = slot_value m' p' d' c)"
proof -
  define m where "m = (case n of OCL_DEV_BASE_PROGRAM \<Rightarrow> Member_ocl_dev_base_program
                          | OCL_DEV_MEGAKERNEL_PROGRAM \<Rightarrow> Member_ocl_dev_megakernel_program)"
  from assms obtain c0 where g: "get_something ndebug p d m c = Inr (v, c0)"
    and c': "c' = (if v = NULL then c0 else c0\<lparr>cl_calls := cl_calls c0 @ [clRetainProgram v]\<rparr>)"
    by (cases n) (auto simp add: get_program_def m_def split: sum.splits if_splits)
  from get_something_result[OF g] show ?thesis
    by (auto simp add: c' slot_value_def m_def[symmetric])
qed

lemma store_context_result:
  assumes "store_context ndebug p d h c = Inr c'"
  shows "(\<not> ndebug \<longrightarrow> p \<noteq> NULL \<and> h \<noteq> NULL \<and> slot_value Member_context p d c = NULL) \<and>
         cl_calls c' = cl_calls c @ [clRetainContext h] \<and>
         (\<forall>m' p' d'. slot_value m' p' d' c' =
            (if m' = Member_context \<and> p' = p \<and> d' = d then h else slot_value m' p' d' c))"
proof -
  from assms obtain c0 where g: "store_something ndebug p d h Member_context c = Inr c0"
    and c': "c' = c0\<lparr>cl_calls := cl_calls c0 @ [clRetainContext h]\<rparr>"
    by (auto simp add: store_context_def split: sum.splits)
  from store_something_result[OF g] show ?thesis
    by (auto simp add: c' slot_value_def)
qed

lemma store_program_result:
  assumes "store_program ndebug p d h n c = Inr c'"
  shows "(\<not> ndebug \<longrightarrow> p \<noteq> NULL \<and> h \<noteq> NULL \<and>
           slot_value (case n of OCL_DEV_BASE_PROGRAM \<Rightarrow> Member_ocl_dev_base_program
                      | OCL_DEV_MEGAKERNEL_PROGRAM \<Rightarrow> Member_ocl_dev_megakernel_program) p d c = NULL) \<and>
         cl_calls c' = cl_calls c @ [clRetainProgram h] \<and>
         (\<forall>m' p' d'. slot_value m' p' d' c' =
            (if m' = (case n of OCL_DEV_BASE_PROGRAM \<Rightarrow> Member_ocl_dev_base_program
                      | OCL_DEV_MEGAKERNEL_PROGRAM \<Rightarrow> Member_ocl_dev_megakernel_program)
                \<and> p' = p \<and> d' = d then h else slot_value m' p' d' c))"
proof -
  define m where "m = (case n of OCL_DEV_BASE_PROGRAM \<Rightarrow> Member_ocl_dev_base_program
                          | OCL_DEV_MEGAKERNEL_PROGRAM \<Rightarrow> Member_ocl_dev_megakernel_program)"
  from assms obtain c0 where g: "store_something ndebug p d h m c = Inr c0"
    and c': "c' = c0\<lparr>cl_calls := cl_calls c0 @ [clRetainProgram h]\<rparr>"
    by (cases n) (auto simp add: store_program_def m_def split: sum.splits)
  from store_something_result[OF g] show ?thesis
    by (auto simp add: c' slot_value_def m_def[symmetric])
qed

text \<open>
  What one call other than \<^verbatim>\<open>flush\<close> does: it makes no release, and it leaves the
  handle that a member holds unless it is a store into that member, which fails its
  assertion in a debug build.
\<close>

lemma cache_step_no_release:
  assumes "cache_step ndebug x c = Inr c'" and "x \<noteq> Flush"
  shows "\<exists>new. cl_calls c' = cl_calls c @ new \<and> \<not> list_ex is_release new"
proof (cases x)
  case (Get_context p' d')
  with assms(1) obtain v where "get_context ndebug p' d' c = Inr (v, c')"
    by (cases "get_context ndebug p' d' c") auto
  from get_context_result[OF this] show ?thesis
    by (auto simp add: is_release_def)
next
  case (Get_program p' d' n)
  with assms(1) obtain v where "get_program ndebug p' d' n c = Inr (v, c')"
    by (cases "get_program ndebug p' d' n c") auto
  from get_program_result[OF this] show ?thesis
    by (auto simp add: is_release_def)
next
  case (Store_context p' d' h')
  with assms(1) have "store_context ndebug p' d' h' c = Inr c'" by simp
  from store_context_result[OF this] show ?thesis
    by (auto simp add: is_release_def)
next
  case (Store_program p' d' h' n)
  with assms(1) have "store_program ndebug p' d' h' n c = Inr c'" by simp
  from store_program_result[OF this] show ?thesis
    by (auto simp add: is_release_def)
next
  case Flush
  with assms(2) show ?thesis by simp
qed

lemma cache_step_keeps:
  assumes "cache_step ndebug x c = Inr c'" and "x \<noteq> Flush"
      and "slot_value m p d c = h" and "h \<noteq> NULL"
      and "ndebug \<longrightarrow> (\<forall>h'. x \<noteq> store_member m p d h')"
  shows "slot_value m p d c' = h"
proof (cases x)
  case (Get_context p' d')
  with assms(1) obtain v where "get_context ndebug p' d' c = Inr (v, c')"
    by (cases "get_context ndebug p' d' c") auto
  from get_context_result[OF this] assms(3) show ?thesis by simp
next
  case (Get_program p' d' n)
  with assms(1) obtain v where "get_program ndebug p' d' n c = Inr (v, c')"
    by (cases "get_program ndebug p' d' n c") auto
  from get_program_result[OF this] assms(3) show ?thesis by simp
next
  case (Store_context p' d' h')
  with assms(1) have "store_context ndebug p' d' h' c = Inr c'" by simp
  from store_context_result[OF this] assms(3,4,5) show ?thesis
    by (cases m) (auto simp add: Store_context)
next
  case (Store_program p' d' h' n)
  with assms(1) have "store_program ndebug p' d' h' n c = Inr c'" by simp
  from store_program_result[OF this] assms(3,4,5) show ?thesis
    by (cases m; cases n) (auto simp add: Store_program)
next
  case Flush
  with assms(2) show ?thesis by simp
qed

lemma cache_run_no_release:
  assumes "cache_run ndebug ops c = Inr c'" and "Flush \<notin> set ops"
  shows "\<exists>new. cl_calls c' = cl_calls c @ new \<and> \<not> list_ex is_release new"
  using assms
proof (induction ops arbitrary: c)
  case Nil
  then show ?case by simp
next
  case (Cons x xs)
  from Cons.prems(1) obtain c1 where s: "cache_step ndebug x c = Inr c1"
    and r: "cache_run ndebug xs c1 = Inr c'"
    by (auto split: sum.splits)
  from Cons.prems(2) have nf: "x \<noteq> Flush" "Flush \<notin> set xs" by auto
  from cache_step_no_release[OF s nf(1)]
  obtain new1 where k1: "cl_calls c1 = cl_calls c @ new1" "\<not> list_ex is_release new1" by blast
  from Cons.IH[OF r nf(2)]
  obtain new2 where k2: "cl_calls c' = cl_calls c1 @ new2" "\<not> list_ex is_release new2" by blast
  have "cl_calls c' = cl_calls c @ (new1 @ new2)" using k1 k2 by simp
  moreover have "\<not> list_ex is_release (new1 @ new2)" using k1(2) k2(2) by simp
  ultimately show ?case by blast
qed

lemma cache_run_keeps:
  assumes "cache_run ndebug ops c = Inr c'" and "Flush \<notin> set ops"
      and "slot_value m p d c = h" and "h \<noteq> NULL"
      and "ndebug \<longrightarrow> (\<forall>h'. store_member m p d h' \<notin> set ops)"
  shows "slot_value m p d c' = h"
  using assms(1,2,3,5)
proof (induction ops arbitrary: c)
  case Nil
  then show ?case by simp
next
  case (Cons x xs)
  from Cons.prems(1) obtain c1 where s: "cache_step ndebug x c = Inr c1"
    and r: "cache_run ndebug xs c1 = Inr c'"
    by (auto split: sum.splits)
  from Cons.prems(2) have nf: "x \<noteq> Flush" "Flush \<notin> set xs" by auto
  from Cons.prems(4) have ct: "ndebug \<longrightarrow> (\<forall>h'. x \<noteq> store_member m p d h')"
    "ndebug \<longrightarrow> (\<forall>h'. store_member m p d h' \<notin> set xs)" by auto
  from cache_step_keeps[OF s nf(1) Cons.prems(3) assms(4) ct(1)]
  have "slot_value m p d c1 = h" .
  from Cons.IH[OF r nf(2) this ct(2)] show ?case .
qed

lemma store_member_result:
  assumes "cache_step ndebug (store_member m p d h) c = Inr c1"
  shows "slot_value m p d c1 = h \<and> (ndebug \<or> p \<noteq> NULL)"
proof (cases m)
  case Member_context
  with assms have "store_context ndebug p d h c = Inr c1" by simp
  from store_context_result[OF this] show ?thesis by (auto simp add: Member_context)
next
  case Member_ocl_dev_base_program
  with assms have "store_program ndebug p d h OCL_DEV_BASE_PROGRAM c = Inr c1" by simp
  from store_program_result[OF this] show ?thesis by (auto simp add: Member_ocl_dev_base_program)
next
  case Member_ocl_dev_megakernel_program
  with assms have "store_program ndebug p d h OCL_DEV_MEGAKERNEL_PROGRAM c = Inr c1" by simp
  from store_program_result[OF this] show ?thesis
    by (auto simp add: Member_ocl_dev_megakernel_program)
qed

lemma get_result_value:
  assumes "ndebug \<or> p \<noteq> NULL" and "slot_value m p d c \<noteq> NULL"
  shows "get_result ndebug m p d c = Inr (slot_value m p d c)"
proof (cases m)
  case Member_context
  from get_something_returns[OF assms(1), of d Member_context c] assms(2) show ?thesis
    by (auto simp add: Member_context get_context_def)
next
  case Member_ocl_dev_base_program
  from get_something_returns[OF assms(1), of d Member_ocl_dev_base_program c] assms(2)
  show ?thesis
    by (auto simp add: Member_ocl_dev_base_program get_program_def)
next
  case Member_ocl_dev_megakernel_program
  from get_something_returns[OF assms(1), of d Member_ocl_dev_megakernel_program c] assms(2)
  show ?thesis
    by (auto simp add: Member_ocl_dev_megakernel_program get_program_def)
qed

lemma flush_slot_releases:
  "member_of m s = h \<Longrightarrow> h \<noteq> NULL \<Longrightarrow> release_call m h \<in> set (flush_slot s)"
  by (cases m) (auto simp add: flush_slot_def)

lemma flush_releases:
  assumes "slot_value m p d c = h" and "h \<noteq> NULL"
  shows "release_call m h \<in> set (cl_calls (flush c)) \<and> slot_value m p d (flush c) = NULL"
proof -
  from assms obtain s where s: "map_of (cache c) (p, d) = Some s" and m: "member_of m s = h"
    by (auto simp add: slot_value_def NULL_def split: option.splits)
  from s have "((p, d), s) \<in> set (cache c)" by (rule map_of_SomeD)
  then have "((p, d), s) \<in> set (sort_key fst (cache c))" by simp
  then have "release_call m h \<in> set (concat (map (\<lambda>item. flush_slot (snd item)) (sort_key fst (cache c))))"
    using flush_slot_releases[OF m assms(2)] by (simp only: set_concat set_map) force
  then show ?thesis by (simp add: flush_def Let_def slot_value_def)
qed

text \<open>
  C9, as amended.  For every key and every member of its slot, in a debug build and in
  a build with \<^verbatim>\<open>NDEBUG\<close>: after a store has put a handle other than \<^verbatim>\<open>NULL\<close> into
  the member, and after any further calls of the cache other than \<^verbatim>\<open>flush\<close> that
  have returned, the cache has released nothing.  If moreover none of these calls is a
  store into that member of that key, the member still holds the handle and the get
  of the member returns it, until \<^verbatim>\<open>flush\<close> releases the handle and leaves no slot.
  A debug build needs no such condition: there a store into a member that holds a
  handle fails the assertion of \<^verbatim>\<open>store_something\<close>.
\<close>

theorem cache_slot_persists_until_flush:
  assumes "cache_step ndebug (store_member m p d h) c = Inr c1"
      and "h \<noteq> NULL"
      and "cache_run ndebug ops c1 = Inr c2"
      and "Flush \<notin> set ops"
  shows "(\<exists>new. cl_calls c2 = cl_calls c1 @ new \<and> \<not> list_ex is_release new) \<and>
         ((ndebug \<longrightarrow> (\<forall>h'. store_member m p d h' \<notin> set ops)) \<longrightarrow>
            slot_value m p d c2 = h \<and> get_result ndebug m p d c2 = Inr h \<and>
            release_call m h \<in> set (cl_calls (flush c2)) \<and>
            slot_value m p d (flush c2) = NULL)"
proof -
  from store_member_result[OF assms(1)]
  have v: "slot_value m p d c1 = h" and p: "ndebug \<or> p \<noteq> NULL" by simp_all
  note nr = cache_run_no_release[OF assms(3,4)]
  have "slot_value m p d c2 = h \<and> get_result ndebug m p d c2 = Inr h \<and>
        release_call m h \<in> set (cl_calls (flush c2)) \<and> slot_value m p d (flush c2) = NULL"
    if ct: "ndebug \<longrightarrow> (\<forall>h'. store_member m p d h' \<notin> set ops)"
  proof -
    from cache_run_keeps[OF assms(3,4) v assms(2) ct] have k: "slot_value m p d c2 = h" .
    from get_result_value[OF p, of m d c2] k assms(2)
    have "get_result ndebug m p d c2 = Inr h" by simp
    with k flush_releases[OF k assms(2)] show ?thesis by simp
  qed
  with nr show ?thesis by blast
qed

text \<open>
  A run of the cache in a build with \<^verbatim>\<open>NDEBUG\<close>.  Every call of it returns in the
  code: each get that finds its member empty, and so keeps the lock of the slot, is
  followed by the store on that slot.
\<close>

lemma example_cache_run:
  "cache_step True (Get_context 1 2) empty_cache = Inr cache_after_get"
  "cache_step True (store_member Member_context 1 2 77) cache_after_get = Inr cache_after_store"
  "cache_run True example_cache_ops cache_after_store = Inr cache_after_ops"
  by (simp_all add: example_cache_ops_def cache_after_get_def cache_after_store_def
      cache_after_ops_def empty_cache_def get_context_def get_program_def store_context_def
      store_program_def get_something_def store_something_def cache_insert_def slot_update_def
      Slot_new_def NULL_def Let_def)

text \<open>
  C9 on that run: the context 77 is still returned after the calls that follow its
  store, and \<^verbatim>\<open>flush\<close> releases it.
\<close>

theorem cache_slot_persists_until_flush_witness:
  "cache_step True (store_member Member_context 1 2 77) cache_after_get = Inr cache_after_store \<and>
   77 \<noteq> NULL \<and>
   cache_run True example_cache_ops cache_after_store = Inr cache_after_ops \<and>
   Flush \<notin> set example_cache_ops \<and>
   (\<nexists>h'. store_member Member_context 1 2 h' \<in> set example_cache_ops) \<and>
   get_result True Member_context 1 2 cache_after_ops = Inr 77 \<and>
   clReleaseContext 77 \<in> set (cl_calls (flush cache_after_ops)) \<and>
   slot_value Member_context 1 2 (flush cache_after_ops) = NULL"
proof -
  have nf: "Flush \<notin> set example_cache_ops" by (simp add: example_cache_ops_def)
  have ns: "\<forall>h'. store_member Member_context 1 2 h' \<notin> set example_cache_ops"
    by (simp add: example_cache_ops_def)
  have h: "(77 :: nat) \<noteq> NULL" by (simp add: NULL_def)
  from cache_slot_persists_until_flush[OF example_cache_run(2) h example_cache_run(3) nf]
    example_cache_run(2,3) nf ns h
  show ?thesis by simp
qed

text \<open>
  C9 as stated fails in a build with \<^verbatim>\<open>NDEBUG\<close>.  The context 77 is stored for
  platform 1 and device 2 and a get returns it.  Then a get of the base program of the
  slot finds it empty, and the caller stores the context 88: no assertion is compiled,
  the member is assigned, and the next get returns 88.  The cache has not been flushed.
\<close>

theorem second_store_replaces_counterexample:
  "(\<exists>c. cache_run True [Get_context 1 2, Store_context 1 2 77] empty_cache = Inr c \<and>
        get_result True Member_context 1 2 c = Inr 77) \<and>
   (\<exists>c. cache_run True
           [Get_context 1 2, Store_context 1 2 77, Get_context 1 2,
            Get_program 1 2 OCL_DEV_BASE_PROGRAM, Store_context 1 2 88] empty_cache = Inr c \<and>
        get_result True Member_context 1 2 c = Inr 88)"
  by (simp add: empty_cache_def get_context_def get_program_def store_context_def
      store_program_def get_something_def store_something_def cache_insert_def slot_update_def
      Slot_new_def NULL_def Let_def)

subsection \<open>Loading the kernels\<close>

lemma follows_refl: "follows s s []"
  by (simp add: follows_def)

lemma follows_trans: "follows s s' L \<Longrightarrow> follows s' s'' L' \<Longrightarrow> follows s s'' (L @ L')"
  by (auto simp add: follows_def)

lemma follows_trans':
  "follows s s' L \<Longrightarrow> follows s' s'' L' \<Longrightarrow> M = L @ L' \<Longrightarrow> follows s s'' M"
  by (auto simp add: follows_def)

lemma reported_follows: "reported s s' \<Longrightarrow> follows s' s'' L \<Longrightarrow> reported s s''"
  by (auto simp add: follows_def reported_def)

lemma follows_reported: "follows s s' L \<Longrightarrow> reported s' s'' \<Longrightarrow> reported s s''"
  by (auto simp add: follows_def reported_def)

lemma opencl_error_message_follows:
  "follows s (opencl_error_message m s) []"
  by (simp add: follows_def opencl_error_message_def Let_def)

lemma opencl_error_message_reported:
  "m \<noteq> '''' \<Longrightarrow> reported s (opencl_error_message m s)"
  by (simp add: reported_def opencl_error_message_def Let_def)

lemma opencl_error_message_fields:
  "ciErr (opencl_error_message m s) = ciErr s"
  "cpProgram (opencl_error_message m s) = cpProgram s"
  "platform_name (opencl_error_message m s) = platform_name s"
  "api_calls (opencl_error_message m s) = api_calls s"
  by (simp_all add: opencl_error_message_def Let_def)

lemma opencl_error_result:
  assumes "opencl_error env err s = (b, s')"
  shows "b = (err \<noteq> CL_SUCCESS) \<and> follows s s' [] \<and> (b \<longrightarrow> reported s s') \<and>
         ciErr s' = ciErr s \<and> cpProgram s' = cpProgram s"
proof (cases "err = CL_SUCCESS")
  case True
  with assms show ?thesis by (simp add: opencl_error_def follows_refl)
next
  case False
  with assms have "b" and
    s': "s' = opencl_error_message (''OpenCL error ('' @ show_int err @ ''): '' @ clewErrorString env err) s"
    by (simp_all add: opencl_error_def)
  then show ?thesis
    using False by (simp add: opencl_error_message_follows opencl_error_message_reported
        opencl_error_message_fields)
qed

lemma build_kernel_result:
  assumes "build_kernel env p custom dbg s = (b, s')"
  shows "b = (fst (program_build env p (opencl_kernel_build_options env (platform_name s) dbg @ custom))
              = CL_SUCCESS) \<and>
         follows s s' [clBuildProgram p (opencl_kernel_build_options env (platform_name s) dbg @ custom)] \<and>
         (\<not> b \<longrightarrow> reported s s') \<and> cpProgram s' = cpProgram s"
proof -
  define opts where "opts = opencl_kernel_build_options env (platform_name s) dbg @ custom"
  obtain err build_log where pb: "program_build env p opts = (err, build_log)"
    by (cases "program_build env p opts")
  define s1 where "s1 = s\<lparr>ciErr := err, api_calls := api_calls s @ [clBuildProgram p opts]\<rparr>"
  define s2 where "s2 = (if build_log \<noteq> ''''
       then s1\<lparr>stderr := stderr s1 @ [''OpenCL kernel build output:'', build_log]\<rparr> else s1)"
  have f2: "follows s s2 [clBuildProgram p opts]" "ciErr s2 = err" "cpProgram s2 = cpProgram s"
    by (simp_all add: follows_def s2_def s1_def)
  from assms have r: "(b, s') = (if err \<noteq> CL_SUCCESS
        then (False, opencl_error_message ''OpenCL build failed: errors in console'' s2)
        else (True, s2))"
    unfolding build_kernel_def Let_def opts_def[symmetric] pb prod.case s1_def[symmetric]
      s2_def[symmetric] f2(2) by simp
  show ?thesis
  proof (cases "err = CL_SUCCESS")
    case True
    with r f2 show ?thesis by (simp add: opts_def[symmetric] pb)
  next
    case False
    with r have b: "\<not> b" and s': "s' = opencl_error_message ''OpenCL build failed: errors in console'' s2"
      by simp_all
    have "follows s s' ([clBuildProgram p opts] @ [])"
      unfolding s' by (rule follows_trans[OF f2(1) opencl_error_message_follows])
    moreover have "reported s s'"
      unfolding s' by (rule follows_reported[OF f2(1)]) (simp add: opencl_error_message_reported)
    ultimately show ?thesis
      using b False f2(3) by (simp add: opts_def[symmetric] pb s' opencl_error_message_fields)
  qed
qed

lemma load_binary_result:
  assumes "load_binary env kp (clbin_path env) '''' p s = (b, p', s')"
  shows "b = binary_loads env (platform_name s) \<and>
         (\<exists>L. follows s s' (path_read_binary (clbin_path env) # L) \<and>
               \<not> list_ex reads_binary L \<and> \<not> list_ex creates_from_source L \<and>
               \<not> list_ex saves_binary L) \<and>
         (\<not> b \<longrightarrow> reported s s')"
proof -
  define clbin where "clbin = clbin_path env"
  define s0 where "s0 = s\<lparr>api_calls := api_calls s @ [path_read_binary clbin]\<rparr>"
  have f0: "follows s s0 [path_read_binary clbin]" by (simp add: follows_def s0_def)
  show ?thesis
  proof (cases "file_binary env clbin")
    case None
    with assms have b: "\<not> b"
      and s': "s' = opencl_error_message (''OpenCL failed to read cached binary '' @ clbin @ ''.'') s0"
      by (simp_all add: load_binary_def Let_def clbin_def s0_def)
    have "follows s s' ([path_read_binary clbin] @ [])"
      unfolding s' by (rule follows_trans[OF f0 opencl_error_message_follows])
    moreover have "reported s s'"
      unfolding s' by (rule follows_reported[OF f0]) (simp add: opencl_error_message_reported)
    ultimately show ?thesis
      using b None by (auto simp add: binary_loads_def clbin_def[symmetric])
  next
    case (Some binary)
    obtain prog status err where pf: "program_from_binary env binary = (prog, status, err)"
      by (cases "program_from_binary env binary")
    define s1 where "s1 = s0\<lparr>ciErr := err, api_calls := api_calls s0 @ [clCreateProgramWithBinary binary]\<rparr>"
    have f1: "follows s s1 [path_read_binary clbin, clCreateProgramWithBinary binary]" "ciErr s1 = err"
      by (simp_all add: follows_def s1_def s0_def)
    obtain failed s2 where e: "(case opencl_error env status s1 of
                       (True, self) \<Rightarrow> (True, self)
                     | (False, self) \<Rightarrow> opencl_error env (ciErr self) self) = (failed, s2)"
      by (cases "(case opencl_error env status s1 of
                       (True, self) \<Rightarrow> (True, self)
                     | (False, self) \<Rightarrow> opencl_error env (ciErr self) self)")
    have e2: "failed = (status \<noteq> CL_SUCCESS \<or> err \<noteq> CL_SUCCESS) \<and> follows s1 s2 [] \<and>
              (failed \<longrightarrow> reported s1 s2)"
    proof (cases "opencl_error env status s1")
      case (Pair b1 t1)
      note r1 = opencl_error_result[OF Pair]
      show ?thesis
      proof (cases b1)
        case True
        with e Pair r1 show ?thesis by auto
      next
        case False
        with e Pair have e': "opencl_error env (ciErr t1) t1 = (failed, s2)" by simp
        note r2 = opencl_error_result[OF e']
        from r1 have a1: "follows s1 t1 []" by simp
        from r2 have a2: "follows t1 s2 []" by simp
        have "follows s1 s2 ([] @ [])" by (rule follows_trans[OF a1 a2])
        moreover have "failed \<longrightarrow> reported s1 s2"
          using r1 r2 follows_reported[of s1 t1 "[]" s2] by blast
        ultimately show ?thesis using r1 r2 False f1(2) by auto
      qed
    qed
    from assms have r: "(b, p', s') =
        (if failed
         then (False, prog, opencl_error_message
                 (''OpenCL failed create program from cached binary '' @ clbin @ ''.'') s2)
         else (case build_kernel env prog '''' None s2 of
                 (False, self) \<Rightarrow> (False, prog, self)
               | (True, self) \<Rightarrow> (True, prog, self)))"
      unfolding load_binary_def Let_def clbin_def[symmetric] s0_def[symmetric] Some option.case
        pf prod.case s1_def[symmetric] e by simp
    show ?thesis
    proof (cases failed)
      case True
      with r have b: "\<not> b" and s': "s' = opencl_error_message
                 (''OpenCL failed create program from cached binary '' @ clbin @ ''.'') s2"
        by simp_all
      from e2 have a2: "follows s1 s2 []" by simp
      have "follows s s2 ([path_read_binary clbin, clCreateProgramWithBinary binary] @ [])"
        by (rule follows_trans[OF f1(1) a2])
      then have "follows s s' (([path_read_binary clbin, clCreateProgramWithBinary binary] @ []) @ [])"
        unfolding s' by (rule follows_trans[OF _ opencl_error_message_follows])
      then have fl: "follows s s' (path_read_binary clbin # [clCreateProgramWithBinary binary])" by simp
      have "reported s s2" using f1(1) e2 True follows_reported by blast
      then have "reported s s'"
        unfolding s' by (rule reported_follows[OF _ opencl_error_message_follows])
      moreover have "\<not> binary_loads env (platform_name s)"
        using e2 True by (auto simp add: binary_loads_def clbin_def[symmetric] Some pf)
      moreover have "\<exists>L. follows s s' (path_read_binary clbin # L) \<and>
               \<not> list_ex reads_binary L \<and> \<not> list_ex creates_from_source L \<and>
               \<not> list_ex saves_binary L"
        by (rule exI[of _ "[clCreateProgramWithBinary binary]"])
          (simp add: fl reads_binary_def creates_from_source_def saves_binary_def)
      ultimately show ?thesis using b by (simp add: clbin_def[symmetric])
    next
      case False
      obtain b3 s3 where bk: "build_kernel env prog '''' None s2 = (b3, s3)"
        by (cases "build_kernel env prog '''' None s2")
      note rb = build_kernel_result[OF bk]
      from r False bk have b: "b = b3" and s': "s' = s3" by (auto split: bool.splits)
      have pn: "platform_name s2 = platform_name s" using f1(1) e2 by (simp add: follows_def)
      define opts where "opts = opencl_kernel_build_options env (platform_name s) None"
      from e2 have a2: "follows s1 s2 []" by simp
      have fs2: "follows s s2 ([path_read_binary clbin, clCreateProgramWithBinary binary] @ [])"
        by (rule follows_trans[OF f1(1) a2])
      from rb have a3: "follows s2 s3 [clBuildProgram prog opts]" by (simp add: pn opts_def)
      have "follows s s3 (([path_read_binary clbin, clCreateProgramWithBinary binary] @ []) @ [clBuildProgram prog opts])"
        by (rule follows_trans[OF fs2 a3])
      then have fl: "follows s s3 (path_read_binary clbin # [clCreateProgramWithBinary binary, clBuildProgram prog opts])"
        by simp
      have ex: "\<exists>L. follows s s' (path_read_binary clbin # L) \<and>
               \<not> list_ex reads_binary L \<and> \<not> list_ex creates_from_source L \<and>
               \<not> list_ex saves_binary L"
        unfolding s'
        by (rule exI[of _ "[clCreateProgramWithBinary binary, clBuildProgram prog opts]"])
          (simp add: fl reads_binary_def creates_from_source_def saves_binary_def)
      have bl: "b3 = binary_loads env (platform_name s)"
        using rb e2 False
        by (simp add: binary_loads_def clbin_def[symmetric] Some pf pn binary_options_def)
      have "\<not> b3 \<longrightarrow> reported s s3" using rb fs2 follows_reported by blast
      with ex bl b s' show ?thesis by (simp add: clbin_def[symmetric])
    qed
  qed
qed

lemma compile_kernel_result:
  assumes "compile_kernel env (path_get env ''kernel'')
             (''#include '' @ [CHR 0x22] @ ''kernel.cl'' @ [CHR 0x22] @ '' // ''
                @ path_files_md5_hash env (path_get env ''kernel'') @ [CHR 0x0A]) ''''
             (if opencl_kernel_use_debug env then Some (clsrc_path env) else None) p s = (b, p', s')"
  shows "b = source_compiles env (platform_name s) \<and>
         (\<exists>L. follows s s' L \<and> list_ex creates_from_source L \<and>
               \<not> list_ex reads_binary L \<and> \<not> list_ex saves_binary L) \<and>
         (\<not> b \<longrightarrow> reported s s')"
proof -
  define dbg where "dbg = (if opencl_kernel_use_debug env then Some (clsrc_path env) else None)"
  define src where "src = kernel_source env"
  define L0 where "L0 = (case dbg of Some f \<Rightarrow> [path_write_text f src] | None \<Rightarrow> [])"
  define s0 where "s0 = (case dbg of
                    Some f \<Rightarrow> s\<lparr>api_calls := api_calls s @ [path_write_text f src]\<rparr>
                  | None \<Rightarrow> s)"
  obtain prog err where pf: "program_from_source env src = (prog, err)"
    by (cases "program_from_source env src")
  define s1 where "s1 = s0\<lparr>ciErr := err, api_calls := api_calls s0 @ [clCreateProgramWithSource src]\<rparr>"
  define L1 where "L1 = L0 @ [clCreateProgramWithSource src]"
  have f1: "follows s s1 L1" "ciErr s1 = err"
    by (auto simp add: follows_def s1_def s0_def L1_def L0_def split: option.splits)
  have k1: "list_ex creates_from_source L1" "\<not> list_ex reads_binary L1" "\<not> list_ex saves_binary L1"
    by (auto simp add: L1_def L0_def creates_from_source_def reads_binary_def saves_binary_def
        split: option.splits)
  obtain failed s2 where e: "opencl_error env err s1 = (failed, s2)"
    by (cases "opencl_error env err s1")
  note re = opencl_error_result[OF e]
  from re have a2: "follows s1 s2 []" by simp
  have fs2: "follows s s2 L1" by (rule follows_trans'[OF f1(1) a2]) simp
  from assms have r: "(b, p', s') =
      (case (failed, s2) of
           (True, self) \<Rightarrow> (False, prog, self)
         | (False, self) \<Rightarrow>
             (case build_kernel env prog '''' dbg self of
                (False, self) \<Rightarrow> (False, prog, self)
              | (True, self) \<Rightarrow> (True, prog, self)))"
    unfolding compile_kernel_def Let_def dbg_def[symmetric] kernel_source_def[symmetric]
      src_def[symmetric] s0_def[symmetric] pf prod.case s1_def[symmetric] f1(2) e by simp
  show ?thesis
  proof (cases failed)
    case True
    with r have b: "\<not> b" and s': "s' = s2" by simp_all
    have "reported s s2" using re True f1(1) follows_reported by blast
    moreover have "\<not> source_compiles env (platform_name s)"
      using re True by (simp add: source_compiles_def src_def[symmetric] pf)
    ultimately show ?thesis using b s' fs2 k1 by auto
  next
    case False
    obtain b3 s3 where bk: "build_kernel env prog '''' dbg s2 = (b3, s3)"
      by (cases "build_kernel env prog '''' dbg s2")
    note rb = build_kernel_result[OF bk]
    from r False bk have b: "b = b3" and s': "s' = s3" by (auto split: bool.splits)
    have pn: "platform_name s2 = platform_name s" using fs2 by (simp add: follows_def)
    define opts where "opts = opencl_kernel_build_options env (platform_name s) dbg"
    from rb have a3: "follows s2 s3 [clBuildProgram prog opts]" by (simp add: pn opts_def)
    have fl: "follows s s3 (L1 @ [clBuildProgram prog opts])" by (rule follows_trans[OF fs2 a3])
    have k: "list_ex creates_from_source (L1 @ [clBuildProgram prog opts])"
        "\<not> list_ex reads_binary (L1 @ [clBuildProgram prog opts])"
        "\<not> list_ex saves_binary (L1 @ [clBuildProgram prog opts])"
      using k1 by (simp_all add: creates_from_source_def reads_binary_def saves_binary_def)
    have bl: "b3 = source_compiles env (platform_name s)"
      using rb re False
      by (simp add: source_compiles_def src_def[symmetric] pf pn source_options_def dbg_def)
    have "\<not> b3 \<longrightarrow> reported s s3" using rb fs2 follows_reported by blast
    with fl k bl b s' show ?thesis by auto
  qed
qed

lemma save_binary_result:
  assumes "save_binary env p clbin s = (b, s')"
  shows "\<exists>L. follows s s' L \<and> \<not> list_ex creates_from_source L \<and> \<not> list_ex reads_binary L"
proof -
  define s0 where "s0 = s\<lparr>api_calls := api_calls s @ [clGetProgramInfo p ''CL_PROGRAM_BINARY_SIZES'']\<rparr>"
  define s1 where "s1 = s0\<lparr>api_calls := api_calls s0
                         @ [clGetProgramInfo p ''CL_PROGRAM_BINARIES'',
                            path_write_binary clbin (program_binary env p)]\<rparr>"
  define A where "A = [clGetProgramInfo p ''CL_PROGRAM_BINARY_SIZES'']"
  define B where "B = A @ [clGetProgramInfo p ''CL_PROGRAM_BINARIES'',
                            path_write_binary clbin (program_binary env p)]"
  have f0: "follows s s0 A" by (simp add: follows_def s0_def A_def)
  have f1: "follows s s1 B" by (simp add: follows_def s1_def s0_def A_def B_def)
  have k: "\<not> list_ex creates_from_source A" "\<not> list_ex reads_binary A"
      "\<not> list_ex creates_from_source B" "\<not> list_ex reads_binary B"
    by (simp_all add: A_def B_def creates_from_source_def reads_binary_def)
  from assms have "s' = s0 \<or> s' = s1 \<or>
      s' = opencl_error_message (''OpenCL failed to write cached binary '' @ clbin @ ''.'') s1"
    unfolding save_binary_def Let_def s0_def[symmetric] s1_def[symmetric]
    by (auto split: if_splits)
  moreover have "follows s (opencl_error_message m s1) B" for m
    by (rule follows_trans'[OF f1 opencl_error_message_follows]) simp
  ultimately show ?thesis using f0 f1 k by blast
qed

lemma find_kernel_result:
  assumes "find_kernel env name s = (b, k, s')"
  shows "follows s s' [clCreateKernel (cpProgram s) name] \<and> cpProgram s' = cpProgram s"
proof -
  obtain kk err where kp: "kernel_of_program env (cpProgram s) name = (kk, err)"
    by (cases "kernel_of_program env (cpProgram s) name")
  define s1 where "s1 = s\<lparr>ciErr := err, api_calls := api_calls s @ [clCreateKernel (cpProgram s) name]\<rparr>"
  have f1: "follows s s1 [clCreateKernel (cpProgram s) name]" "cpProgram s1 = cpProgram s"
    by (simp_all add: follows_def s1_def)
  obtain failed s2 where e: "opencl_error env (ciErr s1) s1 = (failed, s2)"
    by (cases "opencl_error env (ciErr s1) s1")
  note re = opencl_error_result[OF e]
  from re have a2: "follows s1 s2 []" by simp
  from assms have "s' = s2"
    unfolding find_kernel_def Let_def kp prod.case s1_def[symmetric] e by simp
  moreover have "follows s s2 [clCreateKernel (cpProgram s) name]"
    by (rule follows_trans'[OF f1(1) a2]) simp
  ultimately show ?thesis using re f1(2) by simp
qed

lemma follows_field:
  "follows s (s'\<lparr>ckShaderKernel := k\<rparr>) L = follows s s' L"
  "follows s (s'\<lparr>ckBakeKernel := k\<rparr>) L = follows s s' L"
  "follows s (s'\<lparr>ckFilmConvertByteKernel := k\<rparr>) L = follows s s' L"
  "follows s (s'\<lparr>ckFilmConvertHalfFloatKernel := k\<rparr>) L = follows s s' L"
  "follows s (s'\<lparr>cpProgram := k\<rparr>) L = follows s s' L"
  "follows (s\<lparr>cpProgram := k\<rparr>) s' L = follows s s' L"
  by (simp_all add: follows_def)

lemma find_kernel_other:
  assumes "find_kernel env name s = (b, k, s')"
  shows "\<exists>L. follows s s' L \<and> list_all other_call L"
  using find_kernel_result[OF assms]
  by (intro exI[of _ "[clCreateKernel (cpProgram s) name]"])
    (simp add: other_call_def reads_binary_def creates_from_source_def saves_binary_def)

lemma follows_other_trans:
  assumes "\<exists>L. follows s s' L \<and> list_all other_call L"
      and "\<exists>L. follows s' s'' L \<and> list_all other_call L"
  shows "\<exists>L. follows s s'' L \<and> list_all other_call L"
proof -
  from assms obtain L L' where "follows s s' L" "list_all other_call L"
    "follows s' s'' L'" "list_all other_call L'" by blast
  then have "follows s s'' (L @ L') \<and> list_all other_call (L @ L')"
    by (simp add: follows_trans)
  then show ?thesis by blast
qed

lemma load_kernels_kernels_result:
  assumes "load_kernels_kernels env s = (b, s')"
  shows "\<exists>L. follows s s' L \<and> list_all other_call L"
proof -
  obtain b1 k1 s1 where r1: "find_kernel env ''kernel_ocl_shader'' s = (b1, k1, s1)"
    by (cases "find_kernel env ''kernel_ocl_shader'' s")
  define t1 where "t1 = s1\<lparr>ckShaderKernel := k1\<rparr>"
  have o1: "\<exists>L. follows s t1 L \<and> list_all other_call L"
    using find_kernel_other[OF r1] by (simp add: t1_def follows_field)
  obtain b2 k2 s2 where r2: "find_kernel env ''kernel_ocl_bake'' t1 = (b2, k2, s2)"
    by (cases "find_kernel env ''kernel_ocl_bake'' t1")
  define t2 where "t2 = s2\<lparr>ckBakeKernel := k2\<rparr>"
  have "\<exists>L. follows t1 t2 L \<and> list_all other_call L"
    using find_kernel_other[OF r2] by (simp add: t2_def follows_field)
  with o1 have o2: "\<exists>L. follows s t2 L \<and> list_all other_call L" by (rule follows_other_trans)
  obtain b3 k3 s3 where r3: "find_kernel env ''kernel_ocl_convert_to_byte'' t2 = (b3, k3, s3)"
    by (cases "find_kernel env ''kernel_ocl_convert_to_byte'' t2")
  define t3 where "t3 = s3\<lparr>ckFilmConvertByteKernel := k3\<rparr>"
  have "\<exists>L. follows t2 t3 L \<and> list_all other_call L"
    using find_kernel_other[OF r3] by (simp add: t3_def follows_field)
  with o2 have o3: "\<exists>L. follows s t3 L \<and> list_all other_call L" by (rule follows_other_trans)
  obtain b4 k4 s4 where r4: "find_kernel env ''kernel_ocl_convert_to_half_float'' t3 = (b4, k4, s4)"
    by (cases "find_kernel env ''kernel_ocl_convert_to_half_float'' t3")
  define t4 where "t4 = s4\<lparr>ckFilmConvertHalfFloatKernel := k4\<rparr>"
  have "\<exists>L. follows t3 t4 L \<and> list_all other_call L"
    using find_kernel_other[OF r4] by (simp add: t4_def follows_field)
  with o3 have o4: "\<exists>L. follows s t4 L \<and> list_all other_call L" by (rule follows_other_trans)
  from assms have "s' = t1 \<or> s' = t2 \<or> s' = t3 \<or> s' = t4"
    unfolding load_kernels_kernels_def r1 prod.case Let_def t1_def[symmetric]
      r2 t2_def[symmetric] r3 t3_def[symmetric] r4 t4_def[symmetric]
    by (auto split: if_splits)
  with o1 o2 o3 o4 show ?thesis by blast
qed

lemma list_ex_other: "list_all other_call L \<Longrightarrow>
    \<not> list_ex reads_binary L \<and> \<not> list_ex creates_from_source L \<and> \<not> list_ex saves_binary L"
  by (auto simp add: list_all_iff list_ex_iff other_call_def)

lemma load_kernels_program_result:
  assumes "load_kernels_program env s = (b, s')"
  shows "\<exists>L. follows s s' L \<and>
           (list_ex reads_binary L \<longleftrightarrow> file_exists env (clbin_path env)) \<and>
           (file_exists env (clbin_path env) \<and> \<not> binary_loads env (platform_name s) \<longrightarrow>
              list_ex creates_from_source L \<and> reported s s') \<and>
           (list_ex saves_binary L \<longrightarrow>
              source_compiles env (platform_name s) \<and> list_ex creates_from_source L)"
proof -
  define clbin where "clbin = clbin_path env"
  define kp where "kp = path_get env ''kernel''"
  define dbg where "dbg = (if opencl_kernel_use_debug env then Some (clsrc_path env) else None)"
  define src where "src = ''#include '' @ [CHR 0x22] @ ''kernel.cl'' @ [CHR 0x22] @ '' // ''
                @ path_files_md5_hash env kp @ [CHR 0x0A]"
  define s0 where "s0 = s\<lparr>api_calls := api_calls s @ [path_exists clbin]\<rparr>"
  have f0: "follows s s0 [path_exists clbin]" by (simp add: follows_def s0_def)
  have pn0: "platform_name s0 = platform_name s" by (simp add: s0_def)
  obtain loaded p1 s1 where l: "(if file_exists env clbin
             then load_binary env kp clbin '''' (cpProgram s0) s0
             else (False, cpProgram s0, s0)) = (loaded, p1, s1)"
    by (cases "(if file_exists env clbin
             then load_binary env kp clbin '''' (cpProgram s0) s0
             else (False, cpProgram s0, s0))")
  define t1 where "t1 = s1\<lparr>cpProgram := p1\<rparr>"
  have l1: "loaded = (file_exists env clbin \<and> binary_loads env (platform_name s)) \<and>
            (\<exists>L. follows s t1 L \<and> (list_ex reads_binary L \<longleftrightarrow> file_exists env clbin) \<and>
                  \<not> list_ex creates_from_source L \<and> \<not> list_ex saves_binary L) \<and>
            (file_exists env clbin \<and> \<not> loaded \<longrightarrow> reported s s1)"
  proof (cases "file_exists env clbin")
    case False
    with l have "\<not> loaded" "s1 = s0" by simp_all
    moreover have "\<not> list_ex reads_binary [path_exists clbin]"
      "\<not> list_ex creates_from_source [path_exists clbin]"
      "\<not> list_ex saves_binary [path_exists clbin]"
      by (simp_all add: reads_binary_def creates_from_source_def saves_binary_def)
    ultimately show ?thesis using f0 False unfolding t1_def follows_field by blast
  next
    case True
    with l have lb: "load_binary env kp (clbin_path env) '''' (cpProgram s0) s0 = (loaded, p1, s1)"
      by (simp add: clbin_def)
    from load_binary_result[OF lb] obtain L1 where
      r: "loaded = binary_loads env (platform_name s)"
        "follows s0 s1 (path_read_binary clbin # L1)"
        "\<not> list_ex reads_binary L1" "\<not> list_ex creates_from_source L1"
        "\<not> list_ex saves_binary L1" "\<not> loaded \<longrightarrow> reported s0 s1"
      by (auto simp add: pn0 clbin_def)
    have fl: "follows s s1 ([path_exists clbin] @ path_read_binary clbin # L1)"
      by (rule follows_trans[OF f0 r(2)])
    have k: "list_ex reads_binary ([path_exists clbin] @ path_read_binary clbin # L1)"
      "\<not> list_ex creates_from_source ([path_exists clbin] @ path_read_binary clbin # L1)"
      "\<not> list_ex saves_binary ([path_exists clbin] @ path_read_binary clbin # L1)"
      using r(3-5) by (simp_all add: reads_binary_def creates_from_source_def saves_binary_def)
    have "\<not> loaded \<longrightarrow> reported s s1" using r(6) f0 follows_reported by blast
    with fl k r(1) True show ?thesis unfolding t1_def follows_field by blast
  qed
  then obtain L1 where L1: "follows s t1 L1" "list_ex reads_binary L1 \<longleftrightarrow> file_exists env clbin"
      "\<not> list_ex creates_from_source L1" "\<not> list_ex saves_binary L1" by blast
  have pn1: "platform_name t1 = platform_name s" using L1(1) by (simp add: follows_def)
  from assms have r: "(b, s') =
      (if loaded then (True, t1)
       else case compile_kernel env kp src '''' dbg (cpProgram t1) t1 of
                 (False, program, self) \<Rightarrow> (False, self\<lparr>cpProgram := program\<rparr>)
               | (True, program, self) \<Rightarrow>
                   save_binary env program clbin (self\<lparr>cpProgram := program\<rparr>))"
    unfolding load_kernels_program_def Let_def clbin_def[symmetric] kp_def[symmetric]
      dbg_def[symmetric] s0_def[symmetric] l prod.case t1_def[symmetric] src_def[symmetric]
    by simp
  show ?thesis
  proof (cases loaded)
    case True
    with r have "s' = t1" by simp
    with L1 l1 True show ?thesis unfolding clbin_def[symmetric] by blast
  next
    case False
    obtain cb p2 s2 where ck: "compile_kernel env kp src '''' dbg (cpProgram t1) t1 = (cb, p2, s2)"
      by (cases "compile_kernel env kp src '''' dbg (cpProgram t1) t1")
    from compile_kernel_result[OF ck[unfolded kp_def src_def dbg_def]] obtain L2 where
      c: "cb = source_compiles env (platform_name s)" "follows t1 s2 L2"
        "list_ex creates_from_source L2" "\<not> list_ex reads_binary L2"
        "\<not> list_ex saves_binary L2"
      by (auto simp add: pn1)
    define t2 where "t2 = s2\<lparr>cpProgram := p2\<rparr>"
    have f2: "follows s t2 (L1 @ L2)"
      unfolding t2_def follows_field by (rule follows_trans[OF L1(1) c(2)])
    have k2: "list_ex reads_binary (L1 @ L2) \<longleftrightarrow> file_exists env clbin"
      "list_ex creates_from_source (L1 @ L2)" "\<not> list_ex saves_binary (L1 @ L2)"
      using L1 c by simp_all
    have rep2: "file_exists env clbin \<and> \<not> binary_loads env (platform_name s) \<longrightarrow> reported s t2"
    proof
      assume "file_exists env clbin \<and> \<not> binary_loads env (platform_name s)"
      with l1 False have "reported s s1" by blast
      moreover have "follows s1 t2 L2" using c(2) by (simp add: t1_def t2_def follows_field)
      ultimately show "reported s t2" by (rule reported_follows)
    qed
    show ?thesis
    proof (cases cb)
      case False
      with r \<open>\<not> loaded\<close> ck have "s' = t2" by (simp add: t2_def)
      with f2 k2 rep2 show ?thesis unfolding clbin_def[symmetric] by blast
    next
      case True
      with r \<open>\<not> loaded\<close> ck have sb: "save_binary env p2 clbin t2 = (b, s')" by (simp add: t2_def)
      from save_binary_result[OF sb] obtain L3 where
        s3: "follows t2 s' L3" "\<not> list_ex creates_from_source L3" "\<not> list_ex reads_binary L3"
        by blast
      have f3: "follows s s' ((L1 @ L2) @ L3)" by (rule follows_trans[OF f2 s3(1)])
      have k3: "list_ex reads_binary ((L1 @ L2) @ L3) \<longleftrightarrow> file_exists env clbin"
        "list_ex creates_from_source ((L1 @ L2) @ L3)"
        using k2 s3 by simp_all
      have rep3: "file_exists env clbin \<and> \<not> binary_loads env (platform_name s) \<longrightarrow> reported s s'"
        using rep2 s3(1) reported_follows by blast
      have "source_compiles env (platform_name s)" using c(1) True by simp
      with f3 k3 rep3 show ?thesis unfolding clbin_def[symmetric] by blast
    qed
  qed
qed

lemma follows_new_calls: "follows s s' L \<Longrightarrow> new_calls s s' = L"
  by (simp add: follows_def new_calls_def)

lemma opencl_version_check_result:
  assumes "opencl_version_check env s = (b, s')"
  shows "follows s s' [] \<and> cpProgram s' = cpProgram s \<and> (b \<longrightarrow> s' = s) \<and>
         b = fst (opencl_version_check env (s\<lparr>cpProgram := p\<rparr>))"
  using assms
  by (auto simp add: opencl_version_check_def follows_refl opencl_error_message_follows
      opencl_error_message_fields split: prod.splits option.splits if_splits)

text \<open>
  C8, as amended.  When \<^verbatim>\<open>load_kernels\<close> returns: if it came to the cached binary
  (device initialised, no base program in the cache, version check passed), it has read
  the binary exactly if the file exists; if moreover the file exists and reading it,
  creating the program from it or building it fails, the program has been created
  from source, and the failure has been reported: \<^verbatim>\<open>error_msg\<close> is not empty and
  \<^verbatim>\<open>stderr\<close> has grown.  Whenever \<^verbatim>\<open>save_binary\<close> has been called, the compilation
  from source had succeeded.  The binary is never read when the file does not exist.
\<close>

theorem load_kernels_binary_fallback:
  assumes "load_kernels env ndebug (self, opencl_cache) = Inr (ok, self', opencl_cache')"
  shows "(reaches_build env self opencl_cache \<longrightarrow>
            (list_ex reads_binary (new_calls self self') \<longleftrightarrow> file_exists env (clbin_path env))) \<and>
         (reaches_build env self opencl_cache \<and> file_exists env (clbin_path env) \<and>
          \<not> binary_loads env (platform_name self) \<longrightarrow>
            list_ex creates_from_source (new_calls self self') \<and>
            error_msg self' \<noteq> '''' \<and> length (stderr self) < length (stderr self')) \<and>
         (list_ex saves_binary (new_calls self self') \<longrightarrow>
            source_compiles env (platform_name self) \<and>
            list_ex creates_from_source (new_calls self self')) \<and>
         (list_ex reads_binary (new_calls self self') \<longrightarrow> file_exists env (clbin_path env))"
proof (cases "device_initialized self")
  case False
  with assms have "new_calls self self' = []"
    by (auto simp add: load_kernels_def new_calls_def)
  with False show ?thesis by (simp add: reaches_build_def)
next
  case True
  with assms obtain program c1 where
    gp: "get_program ndebug (cpPlatform self) (cdDevice self) OCL_DEV_BASE_PROGRAM opencl_cache = Inr (program, c1)"
    by (cases "get_program ndebug (cpPlatform self) (cdDevice self) OCL_DEV_BASE_PROGRAM opencl_cache")
      (auto simp add: load_kernels_def)
  from get_program_result[OF gp]
  have pv: "program = slot_value Member_ocl_dev_base_program (cpPlatform self) (cdDevice self) opencl_cache"
    by simp
  define s0 where "s0 = self\<lparr>cpProgram := program\<rparr>"
  have f0: "follows self s0 []" by (simp add: follows_def s0_def)
  have pn0: "platform_name s0 = platform_name self" by (simp add: s0_def)
  show ?thesis
  proof (cases "program = NULL")
    case False
    with assms True gp obtain ok' where "load_kernels_kernels env s0 = (ok', self')"
      by (cases "load_kernels_kernels env s0") (auto simp add: load_kernels_def s0_def)
    from load_kernels_kernels_result[OF this] obtain L where
      L: "follows s0 self' L" "list_all other_call L" by blast
    have "follows self self' ([] @ L)" by (rule follows_trans[OF f0 L(1)])
    then have "new_calls self self' = L" by (simp add: follows_new_calls)
    with list_ex_other[OF L(2)] False pv show ?thesis by (simp add: reaches_build_def)
  next
    case null: True
    obtain vb s1 where vc: "opencl_version_check env s0 = (vb, s1)"
      by (cases "opencl_version_check env s0")
    note rv = opencl_version_check_result[OF vc]
    show ?thesis
    proof (cases vb)
      case False
      with assms True gp null vc have "self' = s1"
        by (auto simp add: load_kernels_def s0_def)
      moreover from rv have "follows s0 s1 []" by simp
      ultimately have "follows self self' ([] @ [])" using f0 follows_trans by blast
      then have "new_calls self self' = []" by (simp add: follows_new_calls)
      moreover have "\<not> fst (opencl_version_check env self)"
        using rv[of "cpProgram self"] False by (simp add: s0_def)
      ultimately show ?thesis by (simp add: reaches_build_def)
    next
      case vt: True
      with rv have s1: "s1 = s0" by simp
      obtain pb s2 where lp: "load_kernels_program env s0 = (pb, s2)"
        by (cases "load_kernels_program env s0")
      from load_kernels_program_result[OF lp] obtain L where
        L: "follows s0 s2 L"
          "list_ex reads_binary L \<longleftrightarrow> file_exists env (clbin_path env)"
          "file_exists env (clbin_path env) \<and> \<not> binary_loads env (platform_name self) \<longrightarrow>
              list_ex creates_from_source L \<and> reported s0 s2"
          "list_ex saves_binary L \<longrightarrow>
              source_compiles env (platform_name self) \<and> list_ex creates_from_source L"
        by (auto simp add: pn0)
      have "\<exists>M. follows s2 self' M \<and> list_all other_call M"
      proof (cases pb)
        case False
        with assms True gp null vc vt s1 lp have "self' = s2"
          by (auto simp add: load_kernels_def s0_def)
        then show ?thesis using follows_refl[of s2] by (intro exI[of _ "[]"]) simp
      next
        case pt: True
        with assms True gp null vc vt s1 lp obtain ok' where
          "load_kernels_kernels env s2 = (ok', self')"
          by (cases "load_kernels_kernels env s2")
            (auto simp add: load_kernels_def s0_def split: sum.splits)
        from load_kernels_kernels_result[OF this] show ?thesis .
      qed
      then obtain M where M: "follows s2 self' M" "list_all other_call M" by blast
      note no = list_ex_other[OF M(2)]
      have "follows s0 self' (L @ M)" by (rule follows_trans[OF L(1) M(1)])
      with f0 have "follows self self' ([] @ (L @ M))" by (rule follows_trans)
      then have nc: "new_calls self self' = L @ M" by (simp add: follows_new_calls)
      have rep: "reported s0 s2 \<Longrightarrow> error_msg self' \<noteq> '''' \<and> length (stderr self) < length (stderr self')"
      proof -
        assume "reported s0 s2"
        then have "reported s0 self'" using M(1) by (rule reported_follows)
        with f0 have "reported self self'" by (rule follows_reported)
        then show ?thesis by (simp add: reported_def)
      qed
      show ?thesis using L(2-4) no rep by (auto simp add: nc)
    qed
  qed
qed

text \<open>\<^verbatim>\<open>load_kernels\<close> on the device whose cached binary cannot be read.\<close>

lemma example_paths:
  "clbin_path example_environment = example_clbin"
  "clbin_path stale_environment = example_clbin"
  by (simp_all add: clbin_path_def example_environment_def stale_environment_def example_clbin_def)

lemma show_int_42: "show_int (- 42) = ''-42''"
  by (simp add: show_int_def show_nat.simps[of 42] show_nat.simps[of 4] char_of_def bit_0)

lemma example_load_kernels:
  "load_kernels example_environment False (example_base_device, empty_cache) =
     Inr (True,
          example_loaded_device (''OpenCL failed to read cached binary '' @ example_clbin @ ''.'')
            [''OpenCL failed to read cached binary '' @ example_clbin @ ''.''] [],
          example_loaded_cache)"
  by (simp add: load_kernels_def load_kernels_program_def load_kernels_kernels_def find_kernel_def
      load_binary_def compile_kernel_def save_binary_def build_kernel_def opencl_error_def
      opencl_error_message_def opencl_version_check_def version_ok_def opencl_kernel_build_options_def
      opencl_kernel_use_debug_def clbin_path_def clsrc_path_def CL_SUCCESS_def
      get_program_def get_something_def store_program_def store_something_def cache_insert_def
      slot_update_def Slot_new_def NULL_def empty_cache_def Let_def
      example_environment_def example_base_device_def example_loaded_device_def
      example_loaded_cache_def example_clbin_def example_source_def example_options_def
      example_build_calls_def)

text \<open>
  C8 on that device: the binary is read, the program is created from source and the
  new binary is saved.
\<close>

theorem load_kernels_binary_fallback_witness:
  "reaches_build example_environment example_base_device empty_cache \<and>
   file_exists example_environment (clbin_path example_environment) \<and>
   \<not> binary_loads example_environment (platform_name example_base_device) \<and>
   source_compiles example_environment (platform_name example_base_device) \<and>
   list_ex reads_binary (new_calls example_base_device
      (example_loaded_device (''OpenCL failed to read cached binary '' @ example_clbin @ ''.'')
            [''OpenCL failed to read cached binary '' @ example_clbin @ ''.''] [])) \<and>
   list_ex creates_from_source (new_calls example_base_device
      (example_loaded_device (''OpenCL failed to read cached binary '' @ example_clbin @ ''.'')
            [''OpenCL failed to read cached binary '' @ example_clbin @ ''.''] [])) \<and>
   list_ex saves_binary (new_calls example_base_device
      (example_loaded_device (''OpenCL failed to read cached binary '' @ example_clbin @ ''.'')
            [''OpenCL failed to read cached binary '' @ example_clbin @ ''.''] []))"
  using load_kernels_binary_fallback[OF example_load_kernels]
  by (simp add: reaches_build_def binary_loads_def example_paths slot_value_def empty_cache_def
      NULL_def opencl_version_check_def version_ok_def example_environment_def
      example_base_device_def example_loaded_device_def new_calls_def reads_binary_def
      example_build_calls_def saves_binary_def)

text \<open>
  C8 as stated fails on the code: the fall back is not silent.  The cached binary is
  read, \<^verbatim>\<open>clCreateProgramWithBinary\<close> refuses it, the source compiles and
  \<^verbatim>\<open>load_kernels\<close> returns \<^verbatim>\<open>true\<close>; two lines have been printed to \<^verbatim>\<open>stderr\<close>
  and the first of them stays in \<^verbatim>\<open>error_msg\<close> of the device.
\<close>

theorem binary_load_failure_reported_counterexample:
  "file_exists stale_environment (clbin_path stale_environment) \<and>
   \<not> binary_loads stale_environment (platform_name example_base_device) \<and>
   load_kernels stale_environment False (example_base_device, empty_cache) =
     Inr (True,
          example_loaded_device ''OpenCL error (-42): CL_INVALID_BINARY''
            [''OpenCL error (-42): CL_INVALID_BINARY'',
             ''OpenCL failed create program from cached binary '' @ example_clbin @ ''.'']
            [clCreateProgramWithBinary [7]],
          example_loaded_cache)"
  by (simp add: load_kernels_def load_kernels_program_def load_kernels_kernels_def find_kernel_def
      load_binary_def compile_kernel_def save_binary_def build_kernel_def opencl_error_def
      opencl_error_message_def opencl_version_check_def version_ok_def opencl_kernel_build_options_def
      opencl_kernel_use_debug_def clbin_path_def clsrc_path_def CL_SUCCESS_def
      get_program_def get_something_def store_program_def store_something_def cache_insert_def
      slot_update_def Slot_new_def NULL_def empty_cache_def Let_def binary_loads_def show_int_42
      example_environment_def stale_environment_def example_base_device_def example_loaded_device_def
      example_loaded_cache_def example_clbin_def example_source_def example_options_def
      example_build_calls_def)

end
